theory Spec2Isabelle
  imports Complex_Main
begin

section \<open>Meshes\<close>

text \<open>
  The classes \<open>Node\<close>, \<open>Face\<close> and \<open>Mesh\<close> are declared in \<open>GridElements.h\<close>, which is not
  among the source files; the model keeps the members the two source files read. A \<open>Node\<close>
  is a point \<open>(x, y, z)\<close>. A \<open>Face\<close> is given by its edges; \<open>face[k]\<close> is the index of the node
  at which edge \<open>k\<close> starts, so a face is the list of these indices and \<open>edges.size()\<close> is its
  length. A \<open>Mesh\<close> has its faces, its nodes, the face areas and, for an overlap mesh, the two
  provenance arrays. Node indices are naturals; the provenance indices are C++ \<open>int\<close>s, here
  unbounded integers (the sentinel \<open>-1\<close> of the driver matters, the upper end of the \<open>int\<close>
  range does not: an index is below the number of faces). Doubles are real numbers.
\<close>

datatype Node = Node (node_x: real) (node_y: real) (node_z: real)

type_synonym Face = "nat list"

record Mesh =
  faces :: "Face list"
  nodes :: "Node list"
  vecFaceArea :: "real list"
  vecFirstFaceIx :: "int list"
  vecSecondFaceIx :: "int list"

section \<open>Driver helpers of \<open>gecore2.cpp\<close>\<close>

subsection \<open>\<open>ParseVariableList\<close>\<close>

text \<open>
  The C++ loop keeps two cursors into the string, \<open>iVarBegin\<close> and \<open>iVarCurrent\<close>, and the
  output vector. Both cursors start at 0 and only grow, so they are modelled as naturals
  (the source's \<open>int\<close> is not exceeded by any string the command line can deliver).
  \<open>substr (pos, len)\<close> is \<open>take len (drop pos s)\<close>. The \<open>for (;;)\<close> loop has no bound of its
  own, so the model is a partial function: \<open>None\<close> is a run that never leaves the loop.

  One pass of the body: when the cursor is at the end of the string or on a separator,
  an empty pending token either ends the loop (end of string) or executes \<open>continue\<close>, which
  jumps back to the top of the loop with both cursors as they were; a non-empty pending
  token is pushed and \<open>iVarBegin\<close> moves behind the separator. In every case but
  \<open>break\<close> and \<open>continue\<close> the pass ends with \<open>iVarCurrent++\<close>.
\<close>

definition is_separator :: "char \<Rightarrow> bool" where
  "is_separator c = (c = CHR '','' \<or> c = CHR '' '')"

definition substr :: "string \<Rightarrow> nat \<Rightarrow> nat \<Rightarrow> string" where
  "substr s pos len = take len (drop pos s)"

partial_function (option) ParseVariableList_loop ::
  "string \<Rightarrow> nat \<Rightarrow> nat \<Rightarrow> string list \<Rightarrow> string list option" where
  "ParseVariableList_loop strVariables iVarBegin iVarCurrent vecVariableStrings =
     (if iVarCurrent \<ge> length strVariables \<or> is_separator (strVariables ! iVarCurrent) then
        (if iVarCurrent = iVarBegin then
           (if iVarCurrent \<ge> length strVariables then Some vecVariableStrings
            else ParseVariableList_loop strVariables iVarBegin iVarCurrent vecVariableStrings)
         else ParseVariableList_loop strVariables (iVarCurrent + 1) (iVarCurrent + 1)
                (vecVariableStrings @ [substr strVariables iVarBegin (iVarCurrent - iVarBegin)]))
      else ParseVariableList_loop strVariables iVarBegin (iVarCurrent + 1) vecVariableStrings)"

definition ParseVariableList :: "string \<Rightarrow> string list option" where
  "ParseVariableList strVariables = ParseVariableList_loop strVariables 0 0 []"

subsection \<open>Orientation check of the overlap mesh in \<open>main\<close>\<close>

text \<open>
  Modelled from the spec: \<open>Mesh::ExchangeFirstAndSecondMesh\<close> is declared in
  \<open>GridElements.h\<close>, which is not among the source files; the spec says the driver
  ``swaps the two provenance arrays''.
\<close>

definition ExchangeFirstAndSecondMesh :: "Mesh \<Rightarrow> Mesh" where
  "ExchangeFirstAndSecondMesh m =
     m \<lparr> vecFirstFaceIx := vecSecondFaceIx m, vecSecondFaceIx := vecFirstFaceIx m \<rparr>"

text \<open>The loop \<open>for i: if (v[i] + 1 > ixFirstFaceMax) ixFirstFaceMax = v[i] + 1\<close>.\<close>

fun ixFirstFaceMax_loop :: "int list \<Rightarrow> int \<Rightarrow> int" where
  "ixFirstFaceMax_loop [] ixFirstFaceMax = ixFirstFaceMax"
| "ixFirstFaceMax_loop (v # vs) ixFirstFaceMax =
     ixFirstFaceMax_loop vs (if v + 1 > ixFirstFaceMax then v + 1 else ixFirstFaceMax)"

definition ixFirstFaceMax :: "Mesh \<Rightarrow> int" where
  "ixFirstFaceMax m = ixFirstFaceMax_loop (vecFirstFaceIx m) (- 1)"

datatype driver_error = InvalidOverlapMesh int

text \<open>
  The three-way branch on \<open>meshInput.faces.size()\<close> and \<open>meshOutput.faces.size()\<close>. The C++
  comparison converts the \<open>int\<close> to \<open>size_t\<close>; the only negative value the loop can leave is
  the sentinel \<open>-1\<close>, which becomes the largest \<open>size_t\<close> and equals no vector size, as \<open>-1\<close>
  equals no \<open>int n\<close> here.
\<close>

definition verify_overlap_order :: "Mesh \<Rightarrow> Mesh \<Rightarrow> Mesh \<Rightarrow> driver_error + Mesh" where
  "verify_overlap_order meshInput meshOutput meshOverlap =
     (if ixFirstFaceMax meshOverlap = int (length (faces meshInput)) then Inr meshOverlap
      else if ixFirstFaceMax meshOverlap = int (length (faces meshOutput)) then
        Inr (ExchangeFirstAndSecondMesh meshOverlap)
      else Inl (InvalidOverlapMesh (ixFirstFaceMax meshOverlap)))"

text \<open>
  For the concrete runs of the check: a mesh given by its faces and provenance arrays, with
  no nodes and no areas, which the check does not read.
\<close>

definition mesh_of_faces :: "Face list \<Rightarrow> int list \<Rightarrow> int list \<Rightarrow> Mesh" where
  "mesh_of_faces fs first second =
     \<lparr> faces = fs, nodes = [], vecFaceArea = [], vecFirstFaceIx = first,
       vecSecondFaceIx = second \<rparr>"

section \<open>The remap kernel of \<open>LinearRemapSE0.cpp\<close>\<close>

text \<open>
  Doubles are modelled as real numbers: the claims about the corrector are claims of exact
  arithmetic. A \<open>DataVector\<close> is a list, a \<open>DataMatrix\<close> the list of its rows;
  \<open>Initialize\<close> allocates zeroed storage. Indices that the C++ reads or writes out of range
  (undefined behaviour there) are excluded by the well-formedness hypotheses of the
  theorems.
\<close>

type_synonym DataVector = "real list"
type_synonym DataMatrix = "real list list"

definition GetRows :: "'a list list \<Rightarrow> nat" where
  "GetRows m = length m"

definition GetColumns :: "'a list list \<Rightarrow> nat" where
  "GetColumns m = (case m of [] \<Rightarrow> 0 | r # _ \<Rightarrow> length r)"

definition Initialize_vec :: "nat \<Rightarrow> DataVector" where
  "Initialize_vec n = replicate n 0"

definition Initialize_mat :: "nat \<Rightarrow> nat \<Rightarrow> DataMatrix" where
  "Initialize_mat r c = replicate r (replicate c 0)"

text \<open>The assignment \<open>m[i][j] = v\<close>.\<close>

definition mat_set :: "'a list list \<Rightarrow> nat \<Rightarrow> nat \<Rightarrow> 'a \<Rightarrow> 'a list list" where
  "mat_set m i j v = m[i := (m ! i)[j := v]]"

datatype remap_error =
    UnsupportedElement
  | InverseMapOutOfRange real real
  | SchurSolveFailed int

subsection \<open>The BLAS and LAPACK routines the corrector calls\<close>

text \<open>
  \<open>dgemv_\<close> and \<open>dposv_\<close> are Fortran library routines, only declared in the source file.
  They see a \<open>DataMatrix\<close> through the address of its first entry, that is as the
  concatenation of its rows, and read it column-major: entry \<open>(i, j)\<close> of the Fortran matrix
  is \<open>a ! (i + j * lda)\<close>.

  \<open>dgemv\<close> is given by its documented meaning, with both increments 1 as in the two calls:
  \<open>y := alpha * A * x + beta * y\<close> for \<open>trans_opt = 'n'\<close>, and
  \<open>y := alpha * A\<^sup>T * x + beta * y\<close> for \<open>trans_opt = 't'\<close>, for the \<open>m\<close> by \<open>n\<close> matrix \<open>A\<close>.
\<close>

definition dgemv ::
  "char \<Rightarrow> nat \<Rightarrow> nat \<Rightarrow> real \<Rightarrow> real list \<Rightarrow> nat \<Rightarrow> real list \<Rightarrow> real \<Rightarrow> real list \<Rightarrow> real list"
  where
  "dgemv trans_opt m n alpha a lda x beta y =
     (if trans_opt = CHR ''n'' then
        map (\<lambda>i. alpha * (\<Sum>j\<leftarrow>[0..<n]. a ! (i + j * lda) * x ! j) + beta * y ! i) [0..<m]
      else
        map (\<lambda>j. alpha * (\<Sum>i\<leftarrow>[0..<m]. a ! (i + j * lda) * x ! i) + beta * y ! j) [0..<n])"

text \<open>
  \<open>dposv\<close> is a parameter of the model: a function of the arguments of the call
  (\<open>uplo\<close>, \<open>n\<close>, \<open>nrhs\<close>, \<open>a\<close>, \<open>lda\<close>, \<open>b\<close>, \<open>ldb\<close>) that returns \<open>info\<close> and the
  new contents of \<open>b\<close>. With \<open>uplo = 'U'\<close> the routine reads the upper triangle of the
  column-major matrix only, and solves with the symmetric matrix that has this upper triangle.
  The contract (LAPACK's, in exact arithmetic): when \<open>info = 0\<close> the returned vector solves
  the system.
\<close>

type_synonym spd_solver =
  "char \<Rightarrow> nat \<Rightarrow> nat \<Rightarrow> real list \<Rightarrow> nat \<Rightarrow> real list \<Rightarrow> nat \<Rightarrow> int \<times> real list"

definition sym_upper :: "real list \<Rightarrow> nat \<Rightarrow> nat \<Rightarrow> nat \<Rightarrow> real" where
  "sym_upper a lda i j = (if i \<le> j then a ! (i + j * lda) else a ! (j + i * lda))"

definition dposv_exact :: "spd_solver \<Rightarrow> bool" where
  "dposv_exact dposv \<longleftrightarrow>
     (\<forall>n a lda b x. dposv CHR ''U'' n 1 a lda b n = (0, x) \<longrightarrow>
        (\<forall>i<n. (\<Sum>j<n. sym_upper a lda i j * x ! j) = b ! i))"

subsection \<open>\<open>ForceConsistencyConservation3\<close>\<close>

text \<open>The loop \<open>// RHS\<close>: the coefficients, row by row, into the head of \<open>dRHS\<close>.\<close>

definition fcc3_RHS :: "DataMatrix \<Rightarrow> DataVector \<Rightarrow> DataVector" where
  "fcc3_RHS dCoeff dRHS =
     fst (fold (\<lambda>i. fold (\<lambda>j (dRHS, ix). (dRHS[ix := dCoeff ! i ! j], ix + 1))
                       [0..<GetColumns dCoeff])
            [0..<GetRows dCoeff] (dRHS, 0))"

text \<open>The loop \<open>// Consistency\<close>, on the state \<open>(dC, dRHS, ix)\<close>.\<close>

definition fcc3_Consistency ::
  "DataMatrix \<Rightarrow> nat \<Rightarrow> DataMatrix \<times> DataVector \<times> nat \<Rightarrow> DataMatrix \<times> DataVector \<times> nat" where
  "fcc3_Consistency dCoeff nCoeff =
     fold (\<lambda>i (dC, dRHS, ix).
             (fold (\<lambda>j dC. mat_set dC (i * GetColumns dCoeff + j) ix 1)
                [0..<GetColumns dCoeff] dC,
              dRHS[nCoeff + ix := 1],
              ix + 1))
       [0..<GetRows dCoeff]"

text \<open>The loop \<open>// Conservation\<close>, which goes on with the \<open>ix\<close> the consistency loop left.\<close>

definition fcc3_Conservation ::
  "DataVector \<Rightarrow> DataVector \<Rightarrow> DataMatrix \<Rightarrow> nat \<Rightarrow>
   DataMatrix \<times> DataVector \<times> nat \<Rightarrow> DataMatrix \<times> DataVector \<times> nat" where
  "fcc3_Conservation vecSourceArea vecTargetArea dCoeff nCoeff =
     fold (\<lambda>j (dC, dRHS, ix).
             (fold (\<lambda>i dC. mat_set dC (i * GetColumns dCoeff + j) ix (vecTargetArea ! i))
                [0..<GetRows dCoeff] dC,
              dRHS[nCoeff + ix := vecSourceArea ! j],
              ix + 1))
       [0..<GetColumns dCoeff - 1]"

text \<open>The block \<open>// Calculate CCt\<close>: \<open>dP\<close> and the three loops that fill \<open>dCCt\<close>.\<close>

definition fcc3_CCt :: "DataVector \<Rightarrow> DataMatrix \<Rightarrow> DataMatrix \<Rightarrow> DataMatrix" where
  "fcc3_CCt vecTargetArea dCoeff dCCt =
     (let dP = fold (\<lambda>i dP. dP + vecTargetArea ! i * vecTargetArea ! i) [0..<GetRows dCoeff] 0;
          dCCt =
            fold (\<lambda>i dCCt.
                    fold (\<lambda>j dCCt.
                            mat_set
                              (mat_set dCCt i (GetRows dCoeff + j) (vecTargetArea ! i))
                              (GetRows dCoeff + j) i (vecTargetArea ! i))
                      [0..<GetColumns dCoeff - 1]
                      (mat_set dCCt i i (real (GetColumns dCoeff))))
              [0..<GetRows dCoeff] dCCt
      in fold (\<lambda>i dCCt. mat_set dCCt (GetRows dCoeff + i) (GetRows dCoeff + i) dP)
           [0..<GetColumns dCoeff - 1] dCCt)"

text \<open>The loop \<open>// Store coefficients in array\<close>.\<close>

definition fcc3_Store :: "DataVector \<Rightarrow> DataMatrix \<Rightarrow> DataMatrix" where
  "fcc3_Store dRHS dCoeff =
     fst (fold (\<lambda>i. fold (\<lambda>j (dCoeff, ix). (mat_set dCoeff i j (dRHS ! ix), ix + 1))
                       [0..<GetColumns dCoeff])
            [0..<GetRows dCoeff] (dCoeff, 0))"

text \<open>
  The block \<open>// Force monotonicity\<close>: the total of the source areas, the low-order
  coefficients \<open>dMonoCoeff\<close>, the scaling factor \<open>dA\<close>, and the blend, in exact arithmetic
  like the rest of the corrector. The same block in double arithmetic is
  \<open>ForceMonotonicity_rounded\<close> below.
\<close>

definition ForceMonotonicity :: "DataVector \<Rightarrow> DataMatrix \<Rightarrow> DataMatrix" where
  "ForceMonotonicity vecSourceArea dCoeff =
     (let nRows = GetRows dCoeff;
          nCols = GetColumns dCoeff;
          dTotalJacobian =
            fold (\<lambda>i dTotalJacobian. dTotalJacobian + vecSourceArea ! i)
              [0..<length vecSourceArea] 0;
          dMonoCoeff =
            fold (\<lambda>i. fold (\<lambda>j dMonoCoeff.
                              mat_set dMonoCoeff i j (vecSourceArea ! j / dTotalJacobian))
                          [0..<nCols])
              [0..<nRows] (Initialize_mat nRows nCols);
          dA =
            fold (\<lambda>i. fold (\<lambda>j dA.
                              if dCoeff ! i ! j < 0 then
                                (let dNewA =
                                   - (dCoeff ! i ! j) / \<bar>dMonoCoeff ! i ! j - dCoeff ! i ! j\<bar>
                                 in if dNewA > dA then dNewA else dA)
                              else dA)
                          [0..<nCols])
              [0..<nRows] 0
      in fold (\<lambda>i. fold (\<lambda>j dCoeff.
                          mat_set dCoeff i j
                            ((1 - dA) * dCoeff ! i ! j + dA * dMonoCoeff ! i ! j))
                      [0..<nCols])
           [0..<nRows] dCoeff)"

text \<open>
  The corrector. \<open>&(dRHS[nCoeff])\<close> is the tail \<open>drop nCoeff dRHS\<close>; a routine that writes
  through that pointer replaces the tail, one that writes through \<open>&(dRHS[0])\<close> replaces the
  first \<open>n\<close> entries. The exception after \<open>dposv_\<close> is the error \<open>SchurSolveFailed\<close>.
\<close>

definition ForceConsistencyConservation3 ::
  "spd_solver \<Rightarrow> DataVector \<Rightarrow> DataVector \<Rightarrow> DataMatrix \<Rightarrow> bool \<Rightarrow> remap_error + DataMatrix"
  where
  "ForceConsistencyConservation3 dposv vecSourceArea vecTargetArea dCoeff fMonotone =
     (let nCoeff = GetRows dCoeff * GetColumns dCoeff;
          nCondConservation = GetColumns dCoeff;
          nCondConsistency = GetRows dCoeff;
          nCond = nCondConservation + nCondConsistency - 1;
          dCCt = Initialize_mat nCond nCond;
          dC = Initialize_mat nCoeff nCond;
          dRHS = Initialize_vec (nCoeff + nCond);
          dRHS = fcc3_RHS dCoeff dRHS;
          (dC, dRHS, ix) = fcc3_Consistency dCoeff nCoeff (dC, dRHS, 0);
          (dC, dRHS, ix) =
            fcc3_Conservation vecSourceArea vecTargetArea dCoeff nCoeff (dC, dRHS, ix);
          dCCt = fcc3_CCt vecTargetArea dCoeff dCCt;
          m = nCond;
          n = nCoeff;
          lda = m;
          dRHS = take nCoeff dRHS @
                 dgemv CHR ''n'' m n 1 (concat dC) lda dRHS (- 1) (drop nCoeff dRHS);
          (nInfo, sol) = dposv CHR ''U'' m 1 (concat dCCt) lda (drop nCoeff dRHS) nCond
      in if nInfo \<noteq> 0 then Inl (SchurSolveFailed nInfo)
         else
           (let dRHS = take nCoeff dRHS @ sol;
                dRHS = dgemv CHR ''t'' m n (- 1) (concat dC) lda (drop nCoeff dRHS) 1 dRHS @
                       drop nCoeff dRHS;
                dCoeff = fcc3_Store dRHS dCoeff
            in Inr (if fMonotone then ForceMonotonicity vecSourceArea dCoeff else dCoeff)))"

subsection \<open>Double arithmetic\<close>

text \<open>
  The source computes in \<open>double\<close>. The model above reads every operation as the exact one
  on the reals; the definitions below give the other reading, for the block
  \<open>// Force monotonicity\<close>: every operation is the exact one followed by a rounding \<open>fl\<close>.
  Negation, \<open>fabs\<close> and the comparisons are exact in either reading.

  \<open>round_double\<close> is the rounding of IEEE 754 binary64, to nearest with ties to even: the
  exponent of \<open>x\<close> is the largest \<open>e\<close> in \<open>-1022 .. 1023\<close> with \<open>2\<^sup>e \<le> |x|\<close> (\<open>-1022\<close> for the
  subnormal numbers and for 0), and \<open>x\<close> is rounded to a multiple of \<open>2\<^bsup>e - 52\<^esup>\<close>. Infinities
  and NaN are not values of the model: a number beyond the largest double is rounded with
  the exponent 1023.
\<close>

definition round_even :: "real \<Rightarrow> int" where
  "round_even x =
     (let f = \<lfloor>x\<rfloor>; r = x - of_int f
      in if r < 1 / 2 then f else if 1 / 2 < r then f + 1 else if even f then f else f + 1)"

fun double_exponent_from :: "nat \<Rightarrow> real \<Rightarrow> int" where
  "double_exponent_from 0 a = - 1022"
| "double_exponent_from (Suc n) a =
     (if 2 powi (int n - 1021) \<le> a then int n - 1021 else double_exponent_from n a)"

definition double_exponent :: "real \<Rightarrow> int" where
  "double_exponent x = double_exponent_from 2045 \<bar>x\<bar>"

definition round_double :: "real \<Rightarrow> real" where
  "round_double x =
     (let ulp = 2 powi (double_exponent x - 52)
      in of_int (round_even (x / ulp)) * ulp)"

text \<open>
  The block \<open>// Force monotonicity\<close> with the rounding \<open>fl\<close> after every operation, in the
  order in which C++ evaluates them: \<open>(1.0 - dA) * dCoeff[i][j]\<close> and
  \<open>dA * dMonoCoeff[i][j]\<close> are rounded before they are added. With the identity for \<open>fl\<close> it
  is \<open>ForceMonotonicity\<close>.
\<close>

definition ForceMonotonicity_rounded ::
  "(real \<Rightarrow> real) \<Rightarrow> DataVector \<Rightarrow> DataMatrix \<Rightarrow> DataMatrix" where
  "ForceMonotonicity_rounded fl vecSourceArea dCoeff =
     (let nRows = GetRows dCoeff;
          nCols = GetColumns dCoeff;
          dTotalJacobian =
            fold (\<lambda>i dTotalJacobian. fl (dTotalJacobian + vecSourceArea ! i))
              [0..<length vecSourceArea] 0;
          dMonoCoeff =
            fold (\<lambda>i. fold (\<lambda>j dMonoCoeff.
                              mat_set dMonoCoeff i j (fl (vecSourceArea ! j / dTotalJacobian)))
                          [0..<nCols])
              [0..<nRows] (Initialize_mat nRows nCols);
          dA =
            fold (\<lambda>i. fold (\<lambda>j dA.
                              if dCoeff ! i ! j < 0 then
                                (let dNewA =
                                   fl (- (dCoeff ! i ! j)
                                       / \<bar>fl (dMonoCoeff ! i ! j - dCoeff ! i ! j)\<bar>)
                                 in if dNewA > dA then dNewA else dA)
                              else dA)
                          [0..<nCols])
              [0..<nRows] 0
      in fold (\<lambda>i. fold (\<lambda>j dCoeff.
                          mat_set dCoeff i j
                            (fl (fl (fl (1 - dA) * dCoeff ! i ! j) + fl (dA * dMonoCoeff ! i ! j))))
                      [0..<nCols])
           [0..<nRows] dCoeff)"

subsection \<open>The corrector as the spec describes it\<close>

text \<open>
  The spec (section 4.4) gives the corrector in closed form; the three definitions below
  follow its words and are compared with the loops of the source in the proofs.
  \<open>spec_M\<close> is the Schur matrix \<open>M\<close> of step 3: \<open>diag(nCols)\<close> top left, \<open>a_tgt[i]\<close> in the
  off-diagonal blocks, \<open>diag(P)\<close> bottom right with \<open>P = \<Sum>\<^sub>i a_tgt[i]\<^sup>2\<close>.
\<close>

definition spec_M :: "nat \<Rightarrow> nat \<Rightarrow> real list \<Rightarrow> nat \<Rightarrow> nat \<Rightarrow> real" where
  "spec_M nRows nCols a_tgt r c =
     (if r < nRows then (if c < nRows then (if r = c then real nCols else 0) else a_tgt ! r)
      else (if c < nRows then a_tgt ! c
            else (if r = c then (\<Sum>i<nRows. a_tgt ! i * a_tgt ! i) else 0)))"

text \<open>
  \<open>spec_y\<close> is the vector \<open>y = C_con\<^sup>T \<cdot> r_top - r_bot\<close> of step 4: the row sums minus 1, then
  the weighted column sums minus the source areas, for all columns but the last.
\<close>

definition spec_y :: "DataVector \<Rightarrow> DataVector \<Rightarrow> DataMatrix \<Rightarrow> DataVector" where
  "spec_y a_src a_tgt C =
     (let nRows = GetRows C; nCols = GetColumns C in
      map (\<lambda>c. if c < nRows then (\<Sum>j<nCols. C ! c ! j) - 1
                else (\<Sum>i<nRows. a_tgt ! i * C ! i ! (c - nRows)) - a_src ! (c - nRows))
        [0..<nCols + nRows - 1])"

text \<open>\<open>spec_update\<close> is the update \<open>C_flat \<leftarrow> r_top - C_con \<cdot> z\<close> of step 6, unflattened.\<close>

definition spec_update :: "DataVector \<Rightarrow> DataMatrix \<Rightarrow> DataVector \<Rightarrow> DataMatrix" where
  "spec_update a_tgt C z =
     (let nRows = GetRows C; nCols = GetColumns C in
      map (\<lambda>i. map (\<lambda>j. C ! i ! j -
                         (z ! i + (if j < nCols - 1 then a_tgt ! i * z ! (nRows + j) else 0)))
                  [0..<nCols])
        [0..<nRows])"

text \<open>
  \<open>spec_lambda\<close> is the scalar of the monotone post-blend:
  \<open>\<lambda> = max\<^bsub>(i,j): C[i][j]<0\<^esub> (-C[i][j] / |D[i][j] - C[i][j]|)\<close> with the donor
  \<open>D[i][j] = a_src[j] / \<Sum>\<^sub>k a_src[k]\<close>, and 0 when no entry is negative (the spec blends only
  if some entry is negative).
\<close>

definition spec_lambda :: "DataVector \<Rightarrow> DataMatrix \<Rightarrow> real" where
  "spec_lambda a_src C =
     Max (insert 0 {- (C ! i ! j) / \<bar>a_src ! j / sum_list a_src - C ! i ! j\<bar> | i j.
                      i < GetRows C \<and> j < GetColumns C \<and> C ! i ! j < 0})"

text \<open>
  The assignments of the block \<open>// Calculate CCt\<close> in the order the loops make them, as
  (row, column, value) triples; used to read off the entries of \<open>dCCt\<close>.
\<close>

definition cct_writes :: "nat \<Rightarrow> nat \<Rightarrow> real list \<Rightarrow> (nat \<times> nat \<times> real) list" where
  "cct_writes nR nC a =
     concat (map (\<lambda>i. (i, i, real nC) #
                       concat (map (\<lambda>j. [(i, nR + j, a ! i), (nR + j, i, a ! i)]) [0..<nC - 1]))
               [0..<nR]) @
     map (\<lambda>i. (nR + i, nR + i, \<Sum>i<nR. a ! i * a ! i)) [0..<nC - 1]"

text \<open>
  An instance of the solver parameter for the concrete runs below: Cramer's rule on a
  system of order 2 whose matrix is positive definite, and \<open>info = 1\<close> on anything else.
\<close>

definition solver2 :: spd_solver where
  "solver2 uplo n nrhs a lda b ldb =
     (let a11 = a ! 0; a12 = a ! lda; a22 = a ! (1 + lda); d = a11 * a22 - a12 * a12 in
      if n = 2 \<and> 0 < a11 \<and> 0 < d then
        (0, [(a22 * b ! 0 - a12 * b ! 1) / d, (a11 * b ! 1 - a12 * b ! 0) / d])
      else (1, b))"

subsection \<open>\<open>LinearRemapSE4\<close>\<close>

text \<open>
  The routines and tables that \<open>LinearRemapSE4\<close> takes from other files of the repository
  (\<open>FiniteElementTools\<close>, \<open>TriangularQuadrature\<close>, \<open>GridElements\<close>) and from LAPACK are
  parameters of the model, collected in one record:
  \<open>CalculateFaceArea face nodes\<close> is the spherical area of a face;
  \<open>ApplyInverseMap face nodes node\<close> returns the pair \<open>(dAlpha, dBeta)\<close>;
  \<open>SampleGLLFiniteElement fMonotone nP dAlpha dBeta\<close> returns the matrix \<open>dSampleCoeff\<close>;
  \<open>TriQuadraturePoints\<close>, \<open>TriQuadratureG\<close> and \<open>TriQuadratureW\<close> are the members of
  \<open>TriangularQuadratureRule(4)\<close>; \<open>spd_solve\<close> is \<open>dposv_\<close>.
  \<open>GaussLobattoQuadrature::GetPoints\<close> fills \<open>dG\<close> and \<open>dW\<close>, which the function never reads.

  The arithmetic is a parameter as well: every \<open>+\<close>, \<open>-\<close>, \<open>*\<close>, \<open>/\<close> and \<open>sqrt\<close> of the function is the
  exact operation followed by \<open>rounding\<close>, and a literal is the rounding of its decimal value.
  \<open>round_double\<close> gives the arithmetic of the machine (one rounding for each operation, in
  the order in which C++ evaluates them), the identity gives exact arithmetic. \<open>fabs\<close> and the
  comparisons are exact. The corrector is called through its model above.
\<close>

record Externals =
  CalculateFaceArea :: "Face \<Rightarrow> Node list \<Rightarrow> real"
  ApplyInverseMap :: "Face \<Rightarrow> Node list \<Rightarrow> Node \<Rightarrow> real \<times> real"
  SampleGLLFiniteElement :: "bool \<Rightarrow> nat \<Rightarrow> real \<Rightarrow> real \<Rightarrow> DataMatrix"
  TriQuadraturePoints :: nat
  TriQuadratureG :: DataMatrix
  TriQuadratureW :: DataVector
  spd_solve :: spd_solver
  rounding :: "real \<Rightarrow> real"

text \<open>
  A \<open>DataMatrix3D\<close> is a list of matrices, \<open>t ! p ! q ! j\<close> for \<open>t[p][q][j]\<close>. The sparse matrix
  is the function from (row, column) to the value, zero where nothing was added;
  \<open>operator()\<close> followed by \<open>+=\<close> adds to one entry. \<open>Announce\<close> appends to a log.
\<close>

type_synonym 'a DataMatrix3D = "'a list list list"

definition Initialize_3D :: "nat \<Rightarrow> nat \<Rightarrow> nat \<Rightarrow> real DataMatrix3D" where
  "Initialize_3D r c s = replicate r (replicate c (replicate s 0))"

definition tensor_set :: "'a DataMatrix3D \<Rightarrow> nat \<Rightarrow> nat \<Rightarrow> nat \<Rightarrow> 'a \<Rightarrow> 'a DataMatrix3D" where
  "tensor_set t p q j v = mat_set t p q ((t ! p ! q)[j := v])"

type_synonym SparseMatrix = "int \<times> int \<Rightarrow> real"

definition sparse_add ::
  "(real \<Rightarrow> real) \<Rightarrow> SparseMatrix \<Rightarrow> int \<Rightarrow> int \<Rightarrow> real \<Rightarrow> SparseMatrix" where
  "sparse_add fl smat row col v = smat ((row, col) := fl (smat (row, col) + v))"

datatype announcement = AnnounceElement nat | AnnouncePartialElement nat

text \<open>
  What the loop over the input faces carries from one face to the next: \<open>ixOverlap\<close>, the
  sparse matrix \<open>smatMap\<close>, and the log. The other variables declared before
  the loop (\<open>vecSourceArea\<close>, \<open>vecTargetArea\<close>, \<open>dCoeff\<close>, \<open>dSampleCoeff\<close>) are written in full
  before they are read in every iteration that reads them, so they are local to a face here.
\<close>

record se4_state =
  state_ixOverlap :: nat
  state_smatMap :: SparseMatrix
  state_announced :: "announcement list"

text \<open>A \<open>for\<close> loop whose body may throw: the first error ends the loop.\<close>

fun fold_err :: "('a \<Rightarrow> 's \<Rightarrow> 'e + 's) \<Rightarrow> 'a list \<Rightarrow> 's \<Rightarrow> 'e + 's" where
  "fold_err f [] s = Inr s"
| "fold_err f (x # xs) s = (case f x s of Inl e \<Rightarrow> Inl e | Inr s' \<Rightarrow> fold_err f xs s')"

text \<open>
  The loop that counts the overlap faces of the input face \<open>ixFirst\<close>, from \<open>ixOverlapTemp\<close>
  on. It also adds up \<open>nTotalOverlapTriangles\<close>, which is never read and is left out.
\<close>

function count_overlap_faces :: "Mesh \<Rightarrow> nat \<Rightarrow> nat \<Rightarrow> nat \<Rightarrow> nat" where
  "count_overlap_faces meshOverlap ixFirst ixOverlapTemp nOverlapFaces =
     (if ixOverlapTemp < length (faces meshOverlap) then
        (if vecFirstFaceIx meshOverlap ! ixOverlapTemp \<noteq> int ixFirst then nOverlapFaces
         else count_overlap_faces meshOverlap ixFirst (ixOverlapTemp + 1) (nOverlapFaces + 1))
      else nOverlapFaces)"
  by pat_completeness auto
termination
  by (relation "measure (\<lambda>(meshOverlap, ixFirst, ixOverlapTemp, nOverlapFaces).
        length (faces meshOverlap) - ixOverlapTemp)") auto

text \<open>The quadrature node: the barycentric blend of the three corners, scaled to the sphere.\<close>

definition quadrature_node ::
  "(real \<Rightarrow> real) \<Rightarrow> DataMatrix \<Rightarrow> nat \<Rightarrow> Node \<Rightarrow> Node \<Rightarrow> Node \<Rightarrow> Node" where
  "quadrature_node fl G l node0 node1 node2 =
     (let x = fl (fl (fl (G ! l ! 0 * node_x node0) + fl (G ! l ! 1 * node_x node1))
                  + fl (G ! l ! 2 * node_x node2));
          y = fl (fl (fl (G ! l ! 0 * node_y node0) + fl (G ! l ! 1 * node_y node1))
                  + fl (G ! l ! 2 * node_y node2));
          z = fl (fl (fl (G ! l ! 0 * node_z node0) + fl (G ! l ! 1 * node_z node1))
                  + fl (G ! l ! 2 * node_z node2));
          dMag = fl (sqrt (fl (fl (fl (x * x) + fl (y * y)) + fl (z * z))))
      in Node (fl (x / dMag)) (fl (y / dMag)) (fl (z / dMag)))"

text \<open>The test \<open>// Check inverse map value\<close>.\<close>

definition inverse_map_out_of_range :: "real \<Rightarrow> real \<Rightarrow> bool" where
  "inverse_map_out_of_range dAlpha dBeta \<longleftrightarrow>
     dAlpha < 0 \<or> dAlpha > 1 \<or> dBeta < 0 \<or> dBeta > 1"

text \<open>
  The sub-triangle \<open>k\<close> of the fan on vertex 0 of the overlap face \<open>j\<close> of the current input
  face, and its area (\<open>faceTri\<close> and \<open>dTriangleArea\<close>).
\<close>

definition se4_triangle_area :: "Externals \<Rightarrow> Mesh \<Rightarrow> nat \<Rightarrow> nat \<Rightarrow> nat \<Rightarrow> real" where
  "se4_triangle_area ext meshOverlap ixOverlap j k =
     (let faceOverlap = faces meshOverlap ! (ixOverlap + j)
      in CalculateFaceArea ext [faceOverlap ! 0, faceOverlap ! (k + 1), faceOverlap ! (k + 2)]
           (nodes meshOverlap))"

text \<open>
  The quadrature point \<open>l\<close> of that sub-triangle, mapped back through the input face: the
  pair \<open>(dAlpha, dBeta)\<close> that \<open>ApplyInverseMap\<close> returns.
\<close>

definition se4_inverse_map ::
  "Externals \<Rightarrow> Mesh \<Rightarrow> Mesh \<Rightarrow> nat \<Rightarrow> nat \<Rightarrow> nat \<Rightarrow> nat \<Rightarrow> nat \<Rightarrow> real \<times> real" where
  "se4_inverse_map ext meshInput meshOverlap ixFirst ixOverlap j k l =
     (let faceFirst = faces meshInput ! ixFirst;
          faceOverlap = faces meshOverlap ! (ixOverlap + j);
          node0 = nodes meshOverlap ! (faceOverlap ! 0);
          node1 = nodes meshOverlap ! (faceOverlap ! (k + 1));
          node2 = nodes meshOverlap ! (faceOverlap ! (k + 2));
          nodeQuadrature = quadrature_node (rounding ext) (TriQuadratureG ext) l node0 node1 node2
      in ApplyInverseMap ext faceFirst (nodes meshInput) nodeQuadrature)"

text \<open>
  One pass of the loop over the quadrature points: the inverse map, its check, the sample,
  and the loop over \<open>p\<close> and \<open>q\<close> that adds to \<open>dRemapCoeff\<close>. The term added is
  \<open>((TriQuadratureW[l] * dTriangleArea) * dSampleCoeff[p][q]) / vecFaceArea[ixOverlap + j]\<close>,
  as C++ brackets it.
\<close>

definition se4_point ::
  "Externals \<Rightarrow> Mesh \<Rightarrow> Mesh \<Rightarrow> bool \<Rightarrow> nat \<Rightarrow> nat \<Rightarrow> nat \<Rightarrow> nat \<Rightarrow> nat \<Rightarrow> nat \<Rightarrow>
   real DataMatrix3D \<Rightarrow> remap_error + real DataMatrix3D" where
  "se4_point ext meshInput meshOverlap fMonotone nP ixFirst ixOverlap j k l dRemapCoeff =
     (let dTriangleArea = se4_triangle_area ext meshOverlap ixOverlap j k;
          (dAlpha, dBeta) = se4_inverse_map ext meshInput meshOverlap ixFirst ixOverlap j k l
      in if inverse_map_out_of_range dAlpha dBeta then Inl (InverseMapOutOfRange dAlpha dBeta)
         else
           (let dSampleCoeff = SampleGLLFiniteElement ext fMonotone nP dAlpha dBeta
            in Inr (fold (\<lambda>p. fold (\<lambda>q dRemapCoeff.
                                      tensor_set dRemapCoeff p q j
                                        (rounding ext
                                           (dRemapCoeff ! p ! q ! j
                                            + rounding ext
                                                (rounding ext
                                                   (rounding ext
                                                      (TriQuadratureW ext ! l * dTriangleArea)
                                                    * dSampleCoeff ! p ! q)
                                                 / vecFaceArea meshOverlap ! (ixOverlap + j)))))
                                 [0..<nP])
                      [0..<nP] dRemapCoeff)))"

text \<open>
  The block \<open>// Find the local remap coefficients\<close>: the loops over the overlap faces \<open>j\<close>,
  their sub-triangles \<open>k\<close> and the quadrature points \<open>l\<close>. \<open>nOverlapTriangles\<close> is the \<open>int\<close>
  \<open>edges.size() - 2\<close>; the loop over \<open>k\<close> runs while \<open>k < nOverlapTriangles\<close>.
\<close>

definition se4_quadrature ::
  "Externals \<Rightarrow> Mesh \<Rightarrow> Mesh \<Rightarrow> bool \<Rightarrow> nat \<Rightarrow> nat \<Rightarrow> nat \<Rightarrow> nat \<Rightarrow>
   remap_error + real DataMatrix3D" where
  "se4_quadrature ext meshInput meshOverlap fMonotone nP ixFirst ixOverlap nOverlapFaces =
     fold_err
       (\<lambda>j. let faceOverlap = faces meshOverlap ! (ixOverlap + j);
                nOverlapTriangles = int (length faceOverlap) - 2
            in fold_err
                 (\<lambda>k. fold_err
                         (se4_point ext meshInput meshOverlap fMonotone nP ixFirst ixOverlap j k)
                         [0..<TriQuadraturePoints ext])
                 [0..<nat nOverlapTriangles])
       [0..<nOverlapFaces] (Initialize_3D nP nP nOverlapFaces)"

text \<open>
  The block \<open>// Force consistency and conservation\<close>. \<open>dSourceArea\<close> is added up in the source
  and never read; it is left out. The tolerance is the literal \<open>1.0e-10\<close>, the rounding of
  \<open>1 / 10 ^ 10\<close>.
\<close>

definition se4_vecSourceArea :: "real DataMatrix3D \<Rightarrow> nat \<Rightarrow> nat \<Rightarrow> DataVector" where
  "se4_vecSourceArea dataGLLJacobian nP ixFirst =
     fold (\<lambda>p. fold (\<lambda>q vecSourceArea.
                       vecSourceArea[p * nP + q := dataGLLJacobian ! p ! q ! ixFirst])
                  [0..<nP])
       [0..<nP] (Initialize_vec (nP * nP))"

definition se4_vecTargetArea ::
  "(real \<Rightarrow> real) \<Rightarrow> Mesh \<Rightarrow> nat \<Rightarrow> nat \<Rightarrow> DataVector \<times> real" where
  "se4_vecTargetArea fl meshOverlap ixOverlap nOverlapFaces =
     fold (\<lambda>j (vecTargetArea, dTargetArea).
             (vecTargetArea[j := vecFaceArea meshOverlap ! (ixOverlap + j)],
              fl (dTargetArea + vecFaceArea meshOverlap ! (ixOverlap + j))))
       [0..<nOverlapFaces] (Initialize_vec nOverlapFaces, 0)"

definition se4_flatten :: "real DataMatrix3D \<Rightarrow> nat \<Rightarrow> nat \<Rightarrow> DataMatrix" where
  "se4_flatten dRemapCoeff nP nOverlapFaces =
     fold (\<lambda>j. fold (\<lambda>p. fold (\<lambda>q dCoeff. mat_set dCoeff j (p * nP + q) (dRemapCoeff ! p ! q ! j))
                             [0..<nP])
                  [0..<nP])
       [0..<nOverlapFaces] (Initialize_mat nOverlapFaces (nP * nP))"

definition se4_unflatten ::
  "DataMatrix \<Rightarrow> nat \<Rightarrow> nat \<Rightarrow> real DataMatrix3D \<Rightarrow> real DataMatrix3D" where
  "se4_unflatten dCoeff nP nOverlapFaces dRemapCoeff =
     fold (\<lambda>j. fold (\<lambda>p. fold (\<lambda>q dRemapCoeff.
                                  tensor_set dRemapCoeff p q j (dCoeff ! j ! (p * nP + q)))
                             [0..<nP])
                  [0..<nP])
       [0..<nOverlapFaces] dRemapCoeff"

definition se4_correct ::
  "Externals \<Rightarrow> Mesh \<Rightarrow> Mesh \<Rightarrow> real DataMatrix3D \<Rightarrow> bool \<Rightarrow> nat \<Rightarrow> nat \<Rightarrow> nat \<Rightarrow> nat \<Rightarrow>
   real DataMatrix3D \<Rightarrow> announcement list \<Rightarrow>
   remap_error + real DataMatrix3D \<times> announcement list" where
  "se4_correct ext meshInput meshOverlap dataGLLJacobian fMonotone nP ixFirst ixOverlap
     nOverlapFaces dRemapCoeff announcements =
     (let vecSourceArea = se4_vecSourceArea dataGLLJacobian nP ixFirst;
          (vecTargetArea, dTargetArea) =
            se4_vecTargetArea (rounding ext) meshOverlap ixOverlap nOverlapFaces
      in if \<bar>rounding ext (dTargetArea - vecFaceArea meshInput ! ixFirst)\<bar>
              > rounding ext (1 / 10 ^ 10) then
           Inr (dRemapCoeff, announcements @ [AnnouncePartialElement ixFirst])
         else
           (case ForceConsistencyConservation3 (spd_solve ext) vecSourceArea vecTargetArea
                   (se4_flatten dRemapCoeff nP nOverlapFaces) fMonotone of
              Inl e \<Rightarrow> Inl e
            | Inr dCoeff \<Rightarrow>
                Inr (se4_unflatten dCoeff nP nOverlapFaces dRemapCoeff, announcements)))"

text \<open>
  The block \<open>// Put these remap coefficients into the SparseMatrix map\<close>.
  \<open>ixSecondFace\<close> is an \<open>int\<close> used as an index; \<open>ixFirstNode\<close> is the 1-based entry of
  \<open>dataGLLNodes\<close> minus 1.
\<close>

definition se4_put ::
  "(real \<Rightarrow> real) \<Rightarrow> Mesh \<Rightarrow> Mesh \<Rightarrow> int DataMatrix3D \<Rightarrow> nat \<Rightarrow> nat \<Rightarrow> nat \<Rightarrow> nat \<Rightarrow>
   real DataMatrix3D \<Rightarrow> SparseMatrix \<Rightarrow> SparseMatrix" where
  "se4_put fl meshOutput meshOverlap dataGLLNodes nP ixFirst ixOverlap nOverlapFaces dRemapCoeff =
     fold (\<lambda>j. let ixSecondFace = vecSecondFaceIx meshOverlap ! (ixOverlap + j)
               in fold (\<lambda>p. fold (\<lambda>q smatMap.
                                      let ixFirstNode = dataGLLNodes ! p ! q ! ixFirst - 1
                                      in sparse_add fl smatMap ixSecondFace ixFirstNode
                                           (fl (fl (dRemapCoeff ! p ! q ! j
                                                    * vecFaceArea meshOverlap ! (ixOverlap + j))
                                                / vecFaceArea meshOutput ! nat ixSecondFace)))
                                 [0..<nP])
                    [0..<nP])
       [0..<nOverlapFaces]"

text \<open>
  One iteration of the loop \<open>// Loop over all input Faces\<close>. The exception for a face that
  is not a quadrilateral is the error \<open>UnsupportedElement\<close>; \<open>continue\<close> leaves the state
  as it is but for the announcement.
\<close>

definition se4_face ::
  "Externals \<Rightarrow> Mesh \<Rightarrow> Mesh \<Rightarrow> Mesh \<Rightarrow> int DataMatrix3D \<Rightarrow> real DataMatrix3D \<Rightarrow> bool \<Rightarrow>
   nat \<Rightarrow> se4_state \<Rightarrow> remap_error + se4_state" where
  "se4_face ext meshInput meshOutput meshOverlap dataGLLNodes dataGLLJacobian fMonotone
     ixFirst st =
     (let nP = GetRows dataGLLNodes;
          faceFirst = faces meshInput ! ixFirst
      in if length faceFirst \<noteq> 4 then Inl UnsupportedElement
         else
           (let announcements =
                  (if ixFirst mod 100 = 0 then state_announced st @ [AnnounceElement ixFirst]
                   else state_announced st);
                nOverlapFaces = count_overlap_faces meshOverlap ixFirst (state_ixOverlap st) 0
            in if nOverlapFaces = 0 then Inr (st \<lparr> state_announced := announcements \<rparr>)
               else
                 (case se4_quadrature ext meshInput meshOverlap fMonotone nP ixFirst
                         (state_ixOverlap st) nOverlapFaces of
                    Inl e \<Rightarrow> Inl e
                  | Inr dRemapCoeff \<Rightarrow>
                      (case se4_correct ext meshInput meshOverlap dataGLLJacobian fMonotone nP
                              ixFirst (state_ixOverlap st) nOverlapFaces dRemapCoeff announcements of
                         Inl e \<Rightarrow> Inl e
                       | Inr (dRemapCoeff, announcements) \<Rightarrow>
                           Inr \<lparr> state_ixOverlap = state_ixOverlap st + nOverlapFaces,
                                 state_smatMap =
                                   se4_put (rounding ext) meshOutput meshOverlap dataGLLNodes nP
                                     ixFirst (state_ixOverlap st) nOverlapFaces dRemapCoeff
                                     (state_smatMap st),
                                 state_announced = announcements \<rparr>))))"

text \<open>
  The loop over the input faces, run for the faces \<open>ixFirst < n\<close>, from the sparse matrix of
  \<open>mapRemap\<close>: the state in which the loop reaches face \<open>n\<close>, or the error that ended it before.
  \<open>LinearRemapSE4\<close> is the run over all input faces; its result is the final state (the
  sparse matrix and the log) or the error.
\<close>

definition se4_loop ::
  "Externals \<Rightarrow> Mesh \<Rightarrow> Mesh \<Rightarrow> Mesh \<Rightarrow> int DataMatrix3D \<Rightarrow> real DataMatrix3D \<Rightarrow> bool \<Rightarrow>
   SparseMatrix \<Rightarrow> nat \<Rightarrow> remap_error + se4_state" where
  "se4_loop ext meshInput meshOutput meshOverlap dataGLLNodes dataGLLJacobian fMonotone
     smatMap0 n =
     fold_err
       (se4_face ext meshInput meshOutput meshOverlap dataGLLNodes dataGLLJacobian fMonotone)
       [0..<n]
       \<lparr> state_ixOverlap = 0, state_smatMap = smatMap0, state_announced = [] \<rparr>"

definition LinearRemapSE4 ::
  "Externals \<Rightarrow> Mesh \<Rightarrow> Mesh \<Rightarrow> Mesh \<Rightarrow> int DataMatrix3D \<Rightarrow> real DataMatrix3D \<Rightarrow> bool \<Rightarrow>
   SparseMatrix \<Rightarrow> remap_error + se4_state" where
  "LinearRemapSE4 ext meshInput meshOutput meshOverlap dataGLLNodes dataGLLJacobian fMonotone
     smatMap0 =
     se4_loop ext meshInput meshOutput meshOverlap dataGLLNodes dataGLLJacobian fMonotone
       smatMap0 (length (faces meshInput))"

subsection \<open>A small instance\<close>

text \<open>
  For the concrete runs below: one input quadrilateral of order \<open>nP = 1\<close> (a single node, whose
  basis function is constantly 1), cut by its diagonal into two overlap triangles of area
  \<open>1/2\<close> that belong to the output faces 0 and 1; a one-point quadrature rule at the first
  corner with weight 1; an inverse map that returns the given pair for every point; the
  arithmetic of the machine. The input face has the given area, so that the coverage is
  full for the area 1 and partial otherwise.
\<close>

definition example_ext :: "real \<times> real \<Rightarrow> Externals" where
  "example_ext ab =
     \<lparr> CalculateFaceArea = (\<lambda>face ns. 1 / 2),
       ApplyInverseMap = (\<lambda>face ns node. ab),
       SampleGLLFiniteElement = (\<lambda>fMonotone nP dAlpha dBeta. [[1]]),
       TriQuadraturePoints = 1,
       TriQuadratureG = [[1, 0, 0]],
       TriQuadratureW = [1],
       spd_solve = solver2,
       rounding = round_double \<rparr>"

definition example_nodes :: "Node list" where
  "example_nodes = [Node 1 0 0, Node 0 1 0, Node 0 0 1, Node 0 0 (- 1)]"

definition example_input :: "Face \<Rightarrow> real \<Rightarrow> Mesh" where
  "example_input face area =
     \<lparr> faces = [face], nodes = example_nodes, vecFaceArea = [area],
       vecFirstFaceIx = [], vecSecondFaceIx = [] \<rparr>"

definition example_output :: Mesh where
  "example_output =
     \<lparr> faces = [[0, 1, 2], [0, 2, 3]], nodes = example_nodes, vecFaceArea = [1 / 2, 1 / 2],
       vecFirstFaceIx = [], vecSecondFaceIx = [] \<rparr>"

definition example_overlap :: Mesh where
  "example_overlap =
     \<lparr> faces = [[0, 1, 2], [0, 2, 3]], nodes = example_nodes, vecFaceArea = [1 / 2, 1 / 2],
       vecFirstFaceIx = [0, 0], vecSecondFaceIx = [0, 1] \<rparr>"

definition example_state :: "SparseMatrix \<Rightarrow> announcement list \<Rightarrow> se4_state" where
  "example_state smat ann =
     \<lparr> state_ixOverlap = 2, state_smatMap = smat, state_announced = ann \<rparr>"

subsection \<open>The shape of the coefficient array\<close>


section \<open>Properties of the driver helpers\<close>

lemma ParseVariableList_loop_stuck:
  assumes ret: "ParseVariableList_loop s b c v = Some r"
  shows "\<not> (c = b \<and> c < length s \<and> is_separator (s ! c))"
proof (rule ParseVariableList_loop.raw_induct
    [where P = "\<lambda>s b c v r. \<not> (c = b \<and> c < length s \<and> is_separator (s ! c))",
      OF _ ret], goal_cases)
  case (1 f s b c v r)
  show ?case
  proof
    assume stuck: "c = b \<and> c < length s \<and> is_separator (s ! c)"
    then have "c = b" and "\<not> length s \<le> c" and "is_separator (s ! c)" by auto
    with 1(2) have "f s b c v = Some r" by auto
    from 1(1) [OF this] stuck show False by blast
  qed
qed

text \<open>
  C10. The claim says \<open>ParseVariableList\<close> terminates on every string, in particular on
  one that begins with a comma. On the one-character string \<open>,\<close> the loop is entered with
  both cursors at 0 on a separator, takes the \<open>continue\<close> and is back in the same state:
  the call never returns.
\<close>

theorem ParseVariableList_leading_comma_diverges:
  "ParseVariableList '','' = None"
proof (cases "ParseVariableList '',''")
  case None
  then show ?thesis .
next
  case (Some r)
  then have "ParseVariableList_loop '','' 0 0 [] = Some r"
    by (simp add: ParseVariableList_def)
  from ParseVariableList_loop_stuck [OF this] show ?thesis
    by (simp add: is_separator_def)
qed

subsection \<open>The orientation check\<close>

lemma ixFirstFaceMax_loop_Max:
  "ixFirstFaceMax_loop vs a = Max (insert a ((\<lambda>v. v + 1) ` set vs))"
proof (induction vs arbitrary: a)
  case Nil
  show ?case by simp
next
  case (Cons v vs)
  have step: "(if v + 1 > a then v + 1 else a) = max a (v + 1)"
    by (simp add: max_def)
  have "Max (insert a (insert (v + 1) ((\<lambda>v. v + 1) ` set vs)))
      = Max (insert (max a (v + 1)) ((\<lambda>v. v + 1) ` set vs))"
    by (cases "set vs = {}") (simp_all add: max.assoc)
  then show ?case
    unfolding ixFirstFaceMax_loop.simps step Cons.IH by simp
qed

lemma Max_image_plus1:
  assumes "vs \<noteq> []"
  shows "Max ((\<lambda>v. v + 1) ` set vs) = 1 + Max (set (vs :: int list))"
proof -
  have "mono (\<lambda>v::int. v + 1)" by (simp add: mono_def)
  from mono_Max_commute [OF this, of "set vs"] assms show ?thesis by simp
qed

lemma ixFirstFaceMax_nonempty:
  assumes "vecFirstFaceIx m \<noteq> []"
  shows "ixFirstFaceMax m = max (- 1) (1 + Max (set (vecFirstFaceIx m)))"
proof -
  have "ixFirstFaceMax m = Max (insert (- 1) ((\<lambda>v. v + 1) ` set (vecFirstFaceIx m)))"
    by (simp add: ixFirstFaceMax_def ixFirstFaceMax_loop_Max)
  also have "\<dots> = max (- 1) (Max ((\<lambda>v. v + 1) ` set (vecFirstFaceIx m)))"
    using assms by simp
  finally show ?thesis using assms by (simp add: Max_image_plus1)
qed

text \<open>
  C9. For an overlap mesh with at least one face, let \<open>ixMax\<close> be 1 plus the maximum of
  \<open>vecFirstFaceIx\<close>. If \<open>ixMax\<close> is the number of input faces the provenance arrays are kept;
  otherwise, if it is the number of output faces, the two arrays are exchanged; otherwise
  the run fails with the invalid-overlap-mesh error. The value the loop leaves is
  \<open>max (-1) ixMax\<close>, which is \<open>ixMax\<close> itself as soon as one index is at least \<open>-2\<close>, and
  which takes the same branch as \<open>ixMax\<close> in every case.
\<close>

theorem verify_overlap_order_by_max:
  assumes "vecFirstFaceIx meshOverlap \<noteq> []"
  shows "(let ixMax = 1 + Max (set (vecFirstFaceIx meshOverlap)) in
          ixFirstFaceMax meshOverlap = max (- 1) ixMax \<and>
          verify_overlap_order meshInput meshOutput meshOverlap =
           (if ixMax = int (length (faces meshInput)) then Inr meshOverlap
            else if ixMax = int (length (faces meshOutput)) then
              Inr (meshOverlap \<lparr> vecFirstFaceIx := vecSecondFaceIx meshOverlap,
                                 vecSecondFaceIx := vecFirstFaceIx meshOverlap \<rparr>)
            else Inl (InvalidOverlapMesh (max (- 1) ixMax))))"
  using ixFirstFaceMax_nonempty [OF assms]
  by (auto simp: Let_def verify_overlap_order_def ExchangeFirstAndSecondMesh_def max_def)

theorem verify_overlap_order_by_max_witness:
  "vecFirstFaceIx (mesh_of_faces [[0, 1, 2], [0, 2, 3], [0, 3, 4]] [0, 2, 1] [0, 1, 1]) \<noteq> [] \<and>
   verify_overlap_order (mesh_of_faces [[0, 1, 2, 3], [1, 4, 5, 2]] [] [])
       (mesh_of_faces [[0, 1, 2], [0, 2, 3], [1, 4, 2]] [] [])
       (mesh_of_faces [[0, 1, 2], [0, 2, 3], [0, 3, 4]] [0, 2, 1] [0, 1, 1])
     = Inr (mesh_of_faces [[0, 1, 2], [0, 2, 3], [0, 3, 4]] [0, 1, 1] [0, 2, 1]) \<and>
   verify_overlap_order (mesh_of_faces [[0, 1, 2], [0, 2, 3], [1, 4, 2]] [] [])
       (mesh_of_faces [[0, 1, 2, 3], [1, 4, 5, 2]] [] [])
       (mesh_of_faces [[0, 1, 2], [0, 2, 3], [0, 3, 4]] [0, 2, 1] [0, 1, 1])
     = Inr (mesh_of_faces [[0, 1, 2], [0, 2, 3], [0, 3, 4]] [0, 2, 1] [0, 1, 1]) \<and>
   verify_overlap_order (mesh_of_faces [[0, 1, 2, 3], [1, 4, 5, 2]] [] [])
       (mesh_of_faces [[0, 1, 2, 3], [1, 4, 5, 2]] [] [])
       (mesh_of_faces [[0, 1, 2], [0, 2, 3], [0, 3, 4]] [0, 2, 1] [0, 1, 1])
     = Inl (InvalidOverlapMesh 3)"
  using verify_overlap_order_by_max
          [of "mesh_of_faces [[0, 1, 2], [0, 2, 3], [0, 3, 4]] [0, 2, 1] [0, 1, 1]"
              "mesh_of_faces [[0, 1, 2, 3], [1, 4, 5, 2]] [] []"
              "mesh_of_faces [[0, 1, 2], [0, 2, 3], [1, 4, 2]] [] []"]
        verify_overlap_order_by_max
          [of "mesh_of_faces [[0, 1, 2], [0, 2, 3], [0, 3, 4]] [0, 2, 1] [0, 1, 1]"
              "mesh_of_faces [[0, 1, 2], [0, 2, 3], [1, 4, 2]] [] []"
              "mesh_of_faces [[0, 1, 2, 3], [1, 4, 5, 2]] [] []"]
        verify_overlap_order_by_max
          [of "mesh_of_faces [[0, 1, 2], [0, 2, 3], [0, 3, 4]] [0, 2, 1] [0, 1, 1]"
              "mesh_of_faces [[0, 1, 2, 3], [1, 4, 5, 2]] [] []"
              "mesh_of_faces [[0, 1, 2, 3], [1, 4, 5, 2]] [] []"]
  by (simp add: mesh_of_faces_def)

section \<open>Loops as lists of assignments\<close>

subsection \<open>Loops with a running counter\<close>

lemma fold_counter:
  "fold (\<lambda>i (s, ix). (F i ix s, ix + d)) [0..<n] (s0, ix0)
     = (fold (\<lambda>i. F i (ix0 + i * d)) [0..<n] s0, ix0 + n * d)"
  by (induction n) (simp_all add: algebra_simps)

lemma fold_counter3:
  "fold (\<lambda>i (a, b, ix). (F i ix a, G i ix b, ix + 1)) [0..<n] (a0, b0, ix0)
     = (fold (\<lambda>i. F i (ix0 + i)) [0..<n] a0, fold (\<lambda>i. G i (ix0 + i)) [0..<n] b0, ix0 + n)"
  by (induction n) simp_all

subsection \<open>Writes into a matrix\<close>

lemma length_mat_set [simp]: "length (mat_set m r c v) = length m"
  by (simp add: mat_set_def)

lemma length_mat_set_row [simp]: "length (mat_set m r c v ! k) = length (m ! k)"
  by (cases "r < length m") (simp_all add: mat_set_def nth_list_update list_update_beyond)

lemma nth_mat_set:
  "mat_set m r c v ! r' ! c' =
     (if r' = r \<and> c' = c \<and> r < length m \<and> c < length (m ! r) then v else m ! r' ! c')"
  by (cases "r < length m"; cases "c < length (m ! r)")
     (auto simp: mat_set_def nth_list_update list_update_beyond)

lemma mat_writes_length [simp]:
  "length (fold (\<lambda>(r, c, v) m. mat_set m r c v) ws m) = length m"
  by (induction ws arbitrary: m) auto

lemma mat_writes_length_row [simp]:
  "length (fold (\<lambda>(r, c, v) m. mat_set m r c v) ws m ! k) = length (m ! k)"
  by (induction ws arbitrary: m) auto

lemma mat_writes_miss:
  "\<forall>v. (k, c, v) \<notin> set ws \<Longrightarrow>
   fold (\<lambda>(r, c, v) m. mat_set m r c v) ws m ! k ! c = m ! k ! c"
proof (induction ws arbitrary: m)
  case Nil
  show ?case by simp
next
  case (Cons w ws)
  obtain r' c' v' where w: "w = (r', c', v')" by (cases w)
  from Cons.prems have "(k, c, v') \<noteq> w" and rest: "\<forall>v. (k, c, v) \<notin> set ws" by auto
  then have "\<not> (k = r' \<and> c = c')" by (simp add: w)
  then have "mat_set m r' c' v' ! k ! c = m ! k ! c" by (auto simp: nth_mat_set)
  with Cons.IH [OF rest, of "mat_set m r' c' v'"] show ?case by (simp add: w)
qed

lemma mat_writes_hit:
  assumes "(k, c, v) \<in> set ws" and "\<forall>v'. (k, c, v') \<in> set ws \<longrightarrow> v' = v"
    and "k < length m" and "c < length (m ! k)"
  shows "fold (\<lambda>(r, c, v) m. mat_set m r c v) ws m ! k ! c = v"
  using assms
proof (induction ws arbitrary: m)
  case Nil
  then show ?case by simp
next
  case (Cons w ws)
  obtain r' c' v' where w: "w = (r', c', v')" by (cases w)
  show ?case
  proof (cases "(k, c, v) \<in> set ws")
    case True
    have "fold (\<lambda>(r, c, v) m. mat_set m r c v) ws (mat_set m r' c' v') ! k ! c = v"
    proof (rule Cons.IH)
      show "(k, c, v) \<in> set ws" by fact
      show "\<forall>v'. (k, c, v') \<in> set ws \<longrightarrow> v' = v" using Cons.prems(2) by simp
      show "k < length (mat_set m r' c' v')" using Cons.prems(3) by simp
      show "c < length (mat_set m r' c' v' ! k)" using Cons.prems(4) by simp
    qed
    then show ?thesis by (simp add: w)
  next
    case False
    with Cons.prems(1) have hit: "r' = k" "c' = c" "v' = v" by (simp_all add: w)
    have none: "\<forall>u. (k, c, u) \<notin> set ws"
    proof (intro allI notI)
      fix u assume u: "(k, c, u) \<in> set ws"
      with Cons.prems(2) have "u = v" by simp
      with u False show False by simp
    qed
    have "mat_set m k c v ! k ! c = v"
      using Cons.prems(3,4) by (simp add: nth_mat_set)
    then show ?thesis
      by (simp add: w hit mat_writes_miss [OF none])
  qed
qed

lemma nest_as_mat_writes:
  "fold (\<lambda>i. fold (\<lambda>j m. mat_set m (R i j) (K i j) (V i j)) ys) xs m
     = fold (\<lambda>(r, c, v) m. mat_set m r c v)
         (concat (map (\<lambda>i. map (\<lambda>j. (R i j, K i j, V i j)) ys) xs)) m"
  by (induction xs arbitrary: m) (simp_all add: fold_map comp_def)

subsection \<open>Writes into a vector\<close>

lemma vec_writes_length [simp]:
  "length (fold (\<lambda>(k, v) r. r[k := v]) ws r) = length r"
  by (induction ws arbitrary: r) auto

lemma vec_writes_miss:
  "\<forall>v. (k, v) \<notin> set ws \<Longrightarrow> fold (\<lambda>(k, v) r. r[k := v]) ws r ! k = r ! k"
proof (induction ws arbitrary: r)
  case Nil
  show ?case by simp
next
  case (Cons w ws)
  obtain k' v' where w: "w = (k', v')" by (cases w)
  from Cons.prems have "(k, v') \<noteq> w" and rest: "\<forall>v. (k, v) \<notin> set ws" by auto
  then have "k \<noteq> k'" by (simp add: w)
  then have "r[k' := v'] ! k = r ! k" by simp
  with Cons.IH [OF rest, of "r[k' := v']"] show ?case by (simp add: w)
qed

lemma vec_writes_hit:
  assumes "(k, v) \<in> set ws" and "\<forall>v'. (k, v') \<in> set ws \<longrightarrow> v' = v" and "k < length r"
  shows "fold (\<lambda>(k, v) r. r[k := v]) ws r ! k = v"
  using assms
proof (induction ws arbitrary: r)
  case Nil
  then show ?case by simp
next
  case (Cons w ws)
  obtain k' v' where w: "w = (k', v')" by (cases w)
  show ?case
  proof (cases "(k, v) \<in> set ws")
    case True
    have "fold (\<lambda>(k, v) r. r[k := v]) ws (r[k' := v']) ! k = v"
    proof (rule Cons.IH)
      show "(k, v) \<in> set ws" by fact
      show "\<forall>v'. (k, v') \<in> set ws \<longrightarrow> v' = v" using Cons.prems(2) by simp
      show "k < length (r[k' := v'])" using Cons.prems(3) by simp
    qed
    then show ?thesis by (simp add: w)
  next
    case False
    with Cons.prems(1) have hit: "k' = k" "v' = v" by (simp_all add: w)
    have none: "\<forall>u. (k, u) \<notin> set ws"
    proof (intro allI notI)
      fix u assume u: "(k, u) \<in> set ws"
      with Cons.prems(2) have "u = v" by simp
      with u False show False by simp
    qed
    show ?thesis
      using Cons.prems(3) by (simp add: w hit vec_writes_miss [OF none])
  qed
qed

lemma nest_as_vec_writes:
  "fold (\<lambda>i. fold (\<lambda>j r. r[K i j := V i j]) ys) xs r
     = fold (\<lambda>(k, v) r. r[k := v]) (concat (map (\<lambda>i. map (\<lambda>j. (K i j, V i j)) ys) xs)) r"
  by (induction xs arbitrary: r) (simp_all add: fold_map comp_def)

lemma nest_mem:
  "i \<in> set xs \<Longrightarrow> j \<in> set ys \<Longrightarrow> F i j \<in> set (concat (map (\<lambda>i. map (F i) ys) xs))"
  by auto

lemma nest_memD:
  "w \<in> set (concat (map (\<lambda>i. map (F i) ys) xs)) \<Longrightarrow> \<exists>i\<in>set xs. \<exists>j\<in>set ys. w = F i j"
  by auto

lemma loop_as_vec_writes:
  "fold (\<lambda>i r. r[K i := V i]) xs r = fold (\<lambda>(k, v) r. r[k := v]) (map (\<lambda>i. (K i, V i)) xs) r"
  by (simp add: fold_map comp_def)

lemma flat_index_unique:
  fixes i j i' j' n :: nat
  assumes "j < n" "j' < n" "i * n + j = i' * n + j'"
  shows "i = i' \<and> j = j'"
proof -
  from assms(3) have "(i * n + j) div n = (i' * n + j') div n" by simp
  with assms(1,2) have "i = i'" by simp
  with assms(3) show ?thesis by simp
qed

lemma flat_index_less:
  fixes i j nR nC :: nat
  assumes "i < nR" "j < nC"
  shows "i * nC + j < nR * nC"
proof -
  have "i * nC + j < i * nC + nC" using assms(2) by simp
  also have "\<dots> = Suc i * nC" by simp
  also have "\<dots> \<le> nR * nC" using assms(1) by (intro mult_le_mono1) simp
  finally show ?thesis .
qed

lemma nth_concat_uniform:
  assumes "\<forall>r\<in>set m. length r = w" "k < length m" "c < w"
  shows "concat m ! (k * w + c) = m ! k ! c"
  using assms
proof (induction m arbitrary: k)
  case Nil
  then show ?case by simp
next
  case (Cons r m)
  show ?case
  proof (cases k)
    case 0
    with Cons.prems show ?thesis by (simp add: nth_append)
  next
    case (Suc k')
    with Cons.prems have "concat m ! (k' * w + c) = m ! k' ! c"
      by (intro Cons.IH) simp_all
    with Cons.prems Suc show ?thesis by (simp add: nth_append)
  qed
qed

subsection \<open>RHS loop\<close>

lemma counter_inner_vec:
  "fold (\<lambda>j (r, ix). (r[ix := g j], ix + 1)) [0..<n]
     = (\<lambda>(r, ix). (fold (\<lambda>j r. r[ix + j := g j]) [0..<n] r, ix + n))"
  using fold_counter [where F = "\<lambda>j ix r. r[ix := g j]" and d = 1 and n = n]
  by (auto simp: fun_eq_iff)

lemma fcc3_RHS_loops:
  "fcc3_RHS dCoeff dRHS =
     fold (\<lambda>i. fold (\<lambda>j r. r[i * GetColumns dCoeff + j := dCoeff ! i ! j])
                  [0..<GetColumns dCoeff]) [0..<GetRows dCoeff] dRHS"
  using fold_counter [where F = "\<lambda>i ix r. fold (\<lambda>j r. r[ix + j := dCoeff ! i ! j])
                  [0..<GetColumns dCoeff] r" and d = "GetColumns dCoeff" and ?ix0.0 = 0
                  and n = "GetRows dCoeff" and ?s0.0 = dRHS]
  unfolding fcc3_RHS_def counter_inner_vec by simp

lemma length_fcc3_RHS [simp]: "length (fcc3_RHS dCoeff dRHS) = length dRHS"
  by (simp add: fcc3_RHS_loops nest_as_vec_writes)

lemma fcc3_RHS_head:
  assumes "i < GetRows dCoeff" "j < GetColumns dCoeff"
    and "GetRows dCoeff * GetColumns dCoeff \<le> length dRHS"
  shows "fcc3_RHS dCoeff dRHS ! (i * GetColumns dCoeff + j) = dCoeff ! i ! j"
proof -
  let ?nC = "GetColumns dCoeff"
  let ?ws = "concat (map (\<lambda>i. map (\<lambda>j. (i * ?nC + j, dCoeff ! i ! j)) [0..<?nC])
               [0..<GetRows dCoeff])"
  have mem: "(i * ?nC + j, dCoeff ! i ! j) \<in> set ?ws"
    using assms(1,2) by (intro nest_mem [where F = "\<lambda>i j. (i * ?nC + j, dCoeff ! i ! j)"]) simp_all
  have func: "\<forall>v'. (i * ?nC + j, v') \<in> set ?ws \<longrightarrow> v' = dCoeff ! i ! j"
  proof (intro allI impI)
    fix v' assume "(i * ?nC + j, v') \<in> set ?ws"
    then obtain i' j' where "j' < ?nC" "i * ?nC + j = i' * ?nC + j'" "v' = dCoeff ! i' ! j'"
      by auto
    with flat_index_unique [OF assms(2), of j' i i'] show "v' = dCoeff ! i ! j" by simp
  qed
  have "i * ?nC + j < length dRHS"
    using flat_index_less [OF assms(1,2)] assms(3) by simp
  from vec_writes_hit [OF mem func this] show ?thesis
    by (simp add: fcc3_RHS_loops nest_as_vec_writes)
qed

lemma fcc3_RHS_tail:
  assumes "GetRows dCoeff * GetColumns dCoeff \<le> k"
  shows "fcc3_RHS dCoeff dRHS ! k = dRHS ! k"
proof -
  let ?nC = "GetColumns dCoeff"
  let ?ws = "concat (map (\<lambda>i. map (\<lambda>j. (i * ?nC + j, dCoeff ! i ! j)) [0..<?nC])
               [0..<GetRows dCoeff])"
  have "\<forall>v. (k, v) \<notin> set ?ws"
  proof (intro allI notI)
    fix v assume "(k, v) \<in> set ?ws"
    then obtain i j where "i < GetRows dCoeff" "j < ?nC" "k = i * ?nC + j" by auto
    with flat_index_less [of i "GetRows dCoeff" j ?nC] assms show False by simp
  qed
  from vec_writes_miss [OF this] show ?thesis
    by (simp add: fcc3_RHS_loops nest_as_vec_writes)
qed

lemma nest_mat_hit:
  assumes "i \<in> set xs" "j \<in> set ys"
    and "\<forall>i'\<in>set xs. \<forall>j'\<in>set ys. R i' j' = R i j \<and> K i' j' = K i j \<longrightarrow> V i' j' = V i j"
    and "R i j < length m" "K i j < length (m ! R i j)"
  shows "fold (\<lambda>i. fold (\<lambda>j m. mat_set m (R i j) (K i j) (V i j)) ys) xs m ! R i j ! K i j = V i j"
proof -
  let ?ws = "concat (map (\<lambda>i. map (\<lambda>j. (R i j, K i j, V i j)) ys) xs)"
  have mem: "(R i j, K i j, V i j) \<in> set ?ws"
    using assms(1,2) by (intro nest_mem [where F = "\<lambda>i j. (R i j, K i j, V i j)"])
  have func: "\<forall>v'. (R i j, K i j, v') \<in> set ?ws \<longrightarrow> v' = V i j"
  proof (intro allI impI)
    fix v' assume "(R i j, K i j, v') \<in> set ?ws"
    from nest_memD [OF this] obtain i' j' where "i' \<in> set xs" "j' \<in> set ys"
      "R i j = R i' j'" "K i j = K i' j'" "v' = V i' j'" by auto
    with assms(3) show "v' = V i j" by auto
  qed
  from mat_writes_hit [OF mem func assms(4,5)] show ?thesis
    by (simp add: nest_as_mat_writes)
qed

lemma nest_mat_miss:
  assumes "\<forall>i\<in>set xs. \<forall>j\<in>set ys. \<not> (R i j = k \<and> K i j = c)"
  shows "fold (\<lambda>i. fold (\<lambda>j m. mat_set m (R i j) (K i j) (V i j)) ys) xs m ! k ! c = m ! k ! c"
proof -
  let ?ws = "concat (map (\<lambda>i. map (\<lambda>j. (R i j, K i j, V i j)) ys) xs)"
  have "\<forall>v. (k, c, v) \<notin> set ?ws"
  proof (intro allI notI)
    fix v assume "(k, c, v) \<in> set ?ws"
    from nest_memD [OF this] obtain i j where "i \<in> set xs" "j \<in> set ys"
      "k = R i j" "c = K i j" by auto
    with assms show False by auto
  qed
  from mat_writes_miss [OF this] show ?thesis
    by (simp add: nest_as_mat_writes)
qed

lemma nest_mat_length [simp]:
  "length (fold (\<lambda>i. fold (\<lambda>j m. mat_set m (R i j) (K i j) (V i j)) ys) xs m) = length m"
  by (simp add: nest_as_mat_writes)

lemma nest_mat_length_row [simp]:
  "length (fold (\<lambda>i. fold (\<lambda>j m. mat_set m (R i j) (K i j) (V i j)) ys) xs m ! k) = length (m ! k)"
  by (simp add: nest_as_mat_writes)

lemma loop_vec_hit:
  assumes "i \<in> set xs" and "\<forall>i'\<in>set xs. K i' = K i \<longrightarrow> V i' = V i" and "K i < length r"
  shows "fold (\<lambda>i r. r[K i := V i]) xs r ! K i = V i"
proof -
  have mem: "(K i, V i) \<in> set (map (\<lambda>i. (K i, V i)) xs)" using assms(1) by auto
  have func: "\<forall>v'. (K i, v') \<in> set (map (\<lambda>i. (K i, V i)) xs) \<longrightarrow> v' = V i"
    using assms(2) by auto
  from vec_writes_hit [OF mem func assms(3)] show ?thesis
    by (simp add: loop_as_vec_writes)
qed

lemma loop_vec_miss:
  assumes "\<forall>i\<in>set xs. K i \<noteq> k"
  shows "fold (\<lambda>i r. r[K i := V i]) xs r ! k = r ! k"
proof -
  have "\<forall>v. (k, v) \<notin> set (map (\<lambda>i. (K i, V i)) xs)" using assms by auto
  from vec_writes_miss [OF this] show ?thesis by (simp add: loop_as_vec_writes)
qed

lemma loop_vec_length [simp]: "length (fold (\<lambda>i r. r[K i := V i]) xs r) = length r"
  by (simp add: loop_as_vec_writes)

subsection \<open>Consistency and conservation loops\<close>

lemma fcc3_Consistency_loops:
  "fcc3_Consistency dCoeff nCoeff (dC, dRHS, 0) =
     (fold (\<lambda>i. fold (\<lambda>j dC. mat_set dC (i * GetColumns dCoeff + j) i 1)
                   [0..<GetColumns dCoeff]) [0..<GetRows dCoeff] dC,
      fold (\<lambda>i r. r[nCoeff + i := 1]) [0..<GetRows dCoeff] dRHS,
      GetRows dCoeff)"
  unfolding fcc3_Consistency_def
  using fold_counter3 [where F = "\<lambda>i ix dC. fold (\<lambda>j dC. mat_set dC (i * GetColumns dCoeff + j) ix 1)
                   [0..<GetColumns dCoeff] dC" and G = "\<lambda>i ix r. r[nCoeff + ix := 1]"
                   and ?ix0.0 = 0 and n = "GetRows dCoeff" and ?a0.0 = dC and ?b0.0 = dRHS]
  by simp

lemma fcc3_Conservation_loops:
  "fcc3_Conservation vecSourceArea vecTargetArea dCoeff nCoeff (dC, dRHS, ix0) =
     (fold (\<lambda>j. fold (\<lambda>i dC. mat_set dC (i * GetColumns dCoeff + j) (ix0 + j) (vecTargetArea ! i))
                   [0..<GetRows dCoeff]) [0..<GetColumns dCoeff - 1] dC,
      fold (\<lambda>j r. r[nCoeff + (ix0 + j) := vecSourceArea ! j]) [0..<GetColumns dCoeff - 1] dRHS,
      ix0 + (GetColumns dCoeff - 1))"
  unfolding fcc3_Conservation_def
  using fold_counter3 [where F = "\<lambda>j ix dC. fold (\<lambda>i dC. mat_set dC (i * GetColumns dCoeff + j) ix (vecTargetArea ! i))
                   [0..<GetRows dCoeff] dC" and G = "\<lambda>j ix r. r[nCoeff + ix := vecSourceArea ! j]"
                   and ?ix0.0 = ix0 and n = "GetColumns dCoeff - 1" and ?a0.0 = dC and ?b0.0 = dRHS]
  by simp

section \<open>The loops of the corrector\<close>

lemma Initialize_mat_dims [simp]:
  "length (Initialize_mat r c) = r"
  "k < r \<Longrightarrow> length (Initialize_mat r c ! k) = c"
  "k < r \<Longrightarrow> j < c \<Longrightarrow> Initialize_mat r c ! k ! j = 0"
  by (simp_all add: Initialize_mat_def)

lemma dC_entry:
  fixes nR nC :: nat and a :: "real list"
  defines "dC1 \<equiv> fold (\<lambda>i. fold (\<lambda>j dC. mat_set dC (i * nC + j) i 1) [0..<nC]) [0..<nR]
                    (Initialize_mat (nR * nC) (nC + nR - 1))"
  defines "dC2 \<equiv> fold (\<lambda>j. fold (\<lambda>i dC. mat_set dC (i * nC + j) (nR + j) (a ! i)) [0..<nR])
                    [0..<nC - 1] dC1"
  assumes i: "i < nR" and j: "j < nC" and c: "c < nC + nR - 1"
  shows "dC2 ! (i * nC + j) ! c = (if c = i then 1 else if c = nR + j then a ! i else 0)"
proof -
  let ?k = "i * nC + j"
  let ?m0 = "Initialize_mat (nR * nC) (nC + nR - 1)"
  have k: "?k < nR * nC" by (rule flat_index_less [OF i j])
  have len1: "?k < length dC1" and row1: "c < length (dC1 ! ?k)"
    using k c by (simp_all add: dC1_def)
  have m0: "?m0 ! ?k ! c = 0" using k c by simp
  consider (cons) "c = i" | (conv) "c \<noteq> i" "c = nR + j" | (none) "c \<noteq> i" "c \<noteq> nR + j"
    by blast
  then show ?thesis
  proof cases
    case cons
    have "dC2 ! ?k ! c = dC1 ! ?k ! c"
      unfolding dC2_def
    proof (rule nest_mat_miss, intro ballI notI)
      fix j' i' assume "j' \<in> set [0..<nC - 1]" "i' \<in> set [0..<nR]"
        and eq: "i' * nC + j' = i * nC + j \<and> nR + j' = c"
      with cons i show False by simp
    qed
    also have "dC1 ! ?k ! c = 1"
      unfolding dC1_def cons
    proof (rule nest_mat_hit [where R = "\<lambda>i j. i * nC + j" and K = "\<lambda>i j. i"
            and V = "\<lambda>i j. 1" and i = i and j = j])
      show "i \<in> set [0..<nR]" using i by simp
      show "j \<in> set [0..<nC]" using j by simp
      show "\<forall>i'\<in>set [0..<nR]. \<forall>j'\<in>set [0..<nC].
              i' * nC + j' = i * nC + j \<and> i' = i \<longrightarrow> (1::real) = 1" by simp
      show "i * nC + j < length ?m0" using k by simp
      show "i < length (?m0 ! (i * nC + j))" using k c cons by simp
    qed
    finally show ?thesis using cons by simp
  next
    case conv
    have j': "j < nC - 1" using c conv by simp
    have "dC2 ! ?k ! (nR + j) = a ! i"
      unfolding dC2_def
    proof (rule nest_mat_hit [where R = "\<lambda>j i. i * nC + j" and K = "\<lambda>j i. nR + j"
            and V = "\<lambda>j i. a ! i" and i = j and j = i])
      show "j \<in> set [0..<nC - 1]" using j' by simp
      show "i \<in> set [0..<nR]" using i by simp
      show "\<forall>i'\<in>set [0..<nC - 1]. \<forall>j'\<in>set [0..<nR].
              j' * nC + i' = i * nC + j \<and> nR + i' = nR + j \<longrightarrow> a ! j' = a ! i"
      proof (intro ballI impI)
        fix i' j' assume eq: "j' * nC + i' = i * nC + j \<and> nR + i' = nR + j"
        then have "i' = j" by simp
        with eq have "j' * nC = i * nC" by simp
        then have "j' = i" using j by simp
        then show "a ! j' = a ! i" by simp
      qed
      show "i * nC + j < length dC1" by (rule len1)
      show "nR + j < length (dC1 ! (i * nC + j))" using row1 conv by simp
    qed
    then show ?thesis using conv by simp
  next
    case none
    have "dC2 ! ?k ! c = dC1 ! ?k ! c"
      unfolding dC2_def
    proof (rule nest_mat_miss, intro ballI notI)
      fix j' i' assume "j' \<in> set [0..<nC - 1]" "i' \<in> set [0..<nR]"
        and eq: "i' * nC + j' = i * nC + j \<and> nR + j' = c"
      then have "j' < nC" by simp
      from flat_index_unique [OF this j, of i' i] eq have "j' = j" by auto
      with eq none show False by auto
    qed
    also have "\<dots> = ?m0 ! ?k ! c"
      unfolding dC1_def
    proof (rule nest_mat_miss, intro ballI notI)
      fix i' j' assume "i' \<in> set [0..<nR]" "j' \<in> set [0..<nC]"
        and eq: "i' * nC + j' = i * nC + j \<and> i' = c"
      then have "j' < nC" by simp
      from flat_index_unique [OF this j, of i' i] eq have "i' = i" by auto
      with eq none show False by auto
    qed
    finally show ?thesis using none m0 by simp
  qed
qed

lemma dC_dims:
  fixes nR nC :: nat and a :: "real list"
  defines "dC1 \<equiv> fold (\<lambda>i. fold (\<lambda>j dC. mat_set dC (i * nC + j) i 1) [0..<nC]) [0..<nR]
                    (Initialize_mat (nR * nC) (nC + nR - 1))"
  defines "dC2 \<equiv> fold (\<lambda>j. fold (\<lambda>i dC. mat_set dC (i * nC + j) (nR + j) (a ! i)) [0..<nR])
                    [0..<nC - 1] dC1"
  shows "length dC2 = nR * nC" and "\<forall>r\<in>set dC2. length r = nC + nR - 1"
proof -
  show len: "length dC2 = nR * nC" by (simp add: dC2_def dC1_def)
  show "\<forall>r\<in>set dC2. length r = nC + nR - 1"
  proof
    fix r assume "r \<in> set dC2"
    then obtain k where "k < length dC2" "r = dC2 ! k" by (auto simp: in_set_conv_nth)
    with len show "length r = nC + nR - 1" by (simp add: dC2_def dC1_def)
  qed
qed

lemma rhs_tail_entry:
  fixes nR nC nCoeff :: nat and s r0 :: "real list"
  defines "r1 \<equiv> fold (\<lambda>i r. r[nCoeff + i := 1]) [0..<nR] r0"
  defines "r2 \<equiv> fold (\<lambda>j r. r[nCoeff + (nR + j) := s ! j]) [0..<nC - 1] r1"
  assumes len: "length r0 = nCoeff + (nC + nR - 1)"
  shows "length r2 = length r0"
    and "k < nCoeff \<Longrightarrow> r2 ! k = r0 ! k"
    and "c < nC + nR - 1 \<Longrightarrow> r2 ! (nCoeff + c) = (if c < nR then 1 else s ! (c - nR))"
proof -
  show "length r2 = length r0" by (simp add: r2_def r1_def)
  show "r2 ! k = r0 ! k" if "k < nCoeff"
  proof -
    have "r2 ! k = r1 ! k" unfolding r2_def using that by (intro loop_vec_miss) auto
    also have "\<dots> = r0 ! k" unfolding r1_def using that by (intro loop_vec_miss) auto
    finally show ?thesis .
  qed
  show "r2 ! (nCoeff + c) = (if c < nR then 1 else s ! (c - nR))" if c: "c < nC + nR - 1"
  proof (cases "c < nR")
    case True
    have "r2 ! (nCoeff + c) = r1 ! (nCoeff + c)"
      unfolding r2_def using True by (intro loop_vec_miss) auto
    also have "\<dots> = 1"
      unfolding r1_def using True c len
      by (intro loop_vec_hit [where K = "\<lambda>i. nCoeff + i" and V = "\<lambda>i. 1"]) simp_all
    finally show ?thesis using True by simp
  next
    case False
    then have "c = nR + (c - nR)" by simp
    then obtain j where cj: "c = nR + j" ..
    with c have j: "j < nC - 1" by simp
    have "r2 ! (nCoeff + (nR + j)) = s ! j"
      unfolding r2_def using j len
      by (intro loop_vec_hit [where K = "\<lambda>j. nCoeff + (nR + j)" and V = "\<lambda>j. s ! j"])
         (simp_all add: r1_def)
    then show ?thesis using cj by simp
  qed
qed

lemma two_writes_loop:
  "fold (\<lambda>j m. mat_set (mat_set m (R1 j) (K1 j) (V1 j)) (R2 j) (K2 j) (V2 j)) ys m
     = fold (\<lambda>(r, c, v) m. mat_set m r c v)
         (concat (map (\<lambda>j. [(R1 j, K1 j, V1 j), (R2 j, K2 j, V2 j)]) ys)) m"
  by (induction ys arbitrary: m) simp_all

lemma writes_loop_concat:
  "fold (\<lambda>i m. fold (\<lambda>(r, c, v) m. mat_set m r c v) (ws i) m) xs m
     = fold (\<lambda>(r, c, v) m. mat_set m r c v) (concat (map ws xs)) m"
  by (induction xs arbitrary: m) simp_all

lemma loop_as_mat_writes:
  "fold (\<lambda>i m. mat_set m (R i) (K i) (V i)) xs m
     = fold (\<lambda>(r, c, v) m. mat_set m r c v) (map (\<lambda>i. (R i, K i, V i)) xs) m"
  by (simp add: fold_map comp_def)

lemma fold_add_sum:
  "fold (\<lambda>i (s::real). s + f i) [0..<n] s0 = s0 + (\<Sum>i<n. f i)"
  by (induction n) simp_all

lemma fcc3_CCt_writes:
  "fcc3_CCt a dCoeff m =
     fold (\<lambda>(r, c, v) m. mat_set m r c v) (cct_writes (GetRows dCoeff) (GetColumns dCoeff) a) m"
proof -
  let ?W = "\<lambda>(r, c, v) m. mat_set m r c v"
  let ?nR = "GetRows dCoeff" and ?nC = "GetColumns dCoeff"
  have inner: "fold (\<lambda>j dCCt. mat_set (mat_set dCCt i (?nR + j) (a ! i)) (?nR + j) i (a ! i))
                 [0..<?nC - 1] (mat_set dCCt i i (real ?nC))
      = fold ?W ((i, i, real ?nC) #
                 concat (map (\<lambda>j. [(i, ?nR + j, a ! i), (?nR + j, i, a ! i)]) [0..<?nC - 1])) dCCt"
    for i dCCt
    by (simp add: two_writes_loop)
  show ?thesis
    unfolding fcc3_CCt_def Let_def inner writes_loop_concat loop_as_mat_writes cct_writes_def
    by (simp add: fold_add_sum)
qed

lemma cct_writes_mem:
  "(r, c, v) \<in> set (cct_writes nR nC a) \<longleftrightarrow>
     (\<exists>i<nR. (r = i \<and> c = i \<and> v = real nC) \<or>
        (\<exists>j<nC - 1. (r = i \<and> c = nR + j \<and> v = a ! i) \<or> (r = nR + j \<and> c = i \<and> v = a ! i))) \<or>
     (\<exists>j<nC - 1. r = nR + j \<and> c = nR + j \<and> v = (\<Sum>i<nR. a ! i * a ! i))"
  unfolding cct_writes_def by auto

lemma cct_mem_dd: "i < nR \<Longrightarrow> (i, i, real nC) \<in> set (cct_writes nR nC a)"
  unfolding cct_writes_mem by blast

lemma cct_mem_ur: "i < nR \<Longrightarrow> j < nC - 1 \<Longrightarrow> (i, nR + j, a ! i) \<in> set (cct_writes nR nC a)"
  unfolding cct_writes_mem by blast

lemma cct_mem_ll: "i < nR \<Longrightarrow> j < nC - 1 \<Longrightarrow> (nR + j, i, a ! i) \<in> set (cct_writes nR nC a)"
  unfolding cct_writes_mem by blast

lemma cct_mem_pp:
  "j < nC - 1 \<Longrightarrow> (nR + j, nR + j, \<Sum>i<nR. a ! i * a ! i) \<in> set (cct_writes nR nC a)"
  unfolding cct_writes_mem by blast

lemma cct_func_dd: "r < nR \<Longrightarrow> (r, r, v') \<in> set (cct_writes nR nC a) \<Longrightarrow> v' = real nC"
  by (auto simp: cct_writes_mem)

lemma cct_func_ur:
  "r < nR \<Longrightarrow> nR \<le> c \<Longrightarrow> (r, c, v') \<in> set (cct_writes nR nC a) \<Longrightarrow> v' = a ! r"
  by (auto simp: cct_writes_mem)

lemma cct_func_ll:
  "nR \<le> r \<Longrightarrow> c < nR \<Longrightarrow> (r, c, v') \<in> set (cct_writes nR nC a) \<Longrightarrow> v' = a ! c"
  by (auto simp: cct_writes_mem)

lemma cct_func_pp:
  "nR \<le> r \<Longrightarrow> (r, r, v') \<in> set (cct_writes nR nC a) \<Longrightarrow> v' = (\<Sum>i<nR. a ! i * a ! i)"
  by (auto simp: cct_writes_mem)

lemma cct_none_d0:
  "r < nR \<Longrightarrow> c < nR \<Longrightarrow> r \<noteq> c \<Longrightarrow> (r, c, v) \<notin> set (cct_writes nR nC a)"
  by (auto simp: cct_writes_mem)

lemma cct_none_p0:
  "nR \<le> r \<Longrightarrow> nR \<le> c \<Longrightarrow> r \<noteq> c \<Longrightarrow> (r, c, v) \<notin> set (cct_writes nR nC a)"
  by (auto simp: cct_writes_mem)

lemma fcc3_CCt_entry:
  fixes a :: "real list"
  assumes nR: "GetRows dCoeff = nR" and nC: "GetColumns dCoeff = nC"
    and r: "r < nC + nR - 1" and c: "c < nC + nR - 1"
  shows "fcc3_CCt a dCoeff (Initialize_mat (nC + nR - 1) (nC + nR - 1)) ! r ! c = spec_M nR nC a r c"
proof -
  let ?m0 = "Initialize_mat (nC + nR - 1) (nC + nR - 1)"
  let ?ws = "cct_writes nR nC a"
  let ?P = "\<Sum>i<nR. a ! i * a ! i"
  have res: "fcc3_CCt a dCoeff ?m0 = fold (\<lambda>(r, c, v) m. mat_set m r c v) ?ws ?m0"
    by (simp add: fcc3_CCt_writes nR nC)
  have r0: "r < length ?m0" and c0: "c < length (?m0 ! r)" using r c by simp_all
  have hit: "fcc3_CCt a dCoeff ?m0 ! r ! c = v"
    if "(r, c, v) \<in> set ?ws" "\<forall>v'. (r, c, v') \<in> set ?ws \<longrightarrow> v' = v" for v
    unfolding res by (rule mat_writes_hit [OF that r0 c0])
  have z: "?m0 ! r ! c = 0" using r c by simp
  have miss: "fcc3_CCt a dCoeff ?m0 ! r ! c = 0" if "\<forall>v. (r, c, v) \<notin> set ?ws"
    unfolding res by (rule trans [OF mat_writes_miss [OF that] z])
  show ?thesis
  proof (cases "r < nR")
    case rlt: True
    show ?thesis
    proof (cases "c < nR")
      case clt: True
      show ?thesis
      proof (cases "r = c")
        case True
        have "(r, c, real nC) \<in> set ?ws"
          using cct_mem_dd [OF rlt, of nC a] True by simp
        moreover have "\<forall>v'. (r, c, v') \<in> set ?ws \<longrightarrow> v' = real nC"
          using cct_func_dd [OF rlt] True by blast
        ultimately have "fcc3_CCt a dCoeff ?m0 ! r ! c = real nC" by (rule hit)
        then show ?thesis using rlt True by (simp add: spec_M_def)
      next
        case False
        have "fcc3_CCt a dCoeff ?m0 ! r ! c = 0"
          using cct_none_d0 [OF rlt clt False] by (intro miss) simp
        then show ?thesis using rlt clt False by (simp add: spec_M_def)
      qed
    next
      case False
      then have j: "c = nR + (c - nR)" "c - nR < nC - 1" using c by simp_all
      have "(r, c, a ! r) \<in> set ?ws"
        using cct_mem_ur [OF rlt j(2), of a] j(1) by simp
      moreover have "\<forall>v'. (r, c, v') \<in> set ?ws \<longrightarrow> v' = a ! r"
      proof (intro allI impI)
        fix v' assume "(r, c, v') \<in> set ?ws"
        from cct_func_ur [OF rlt _ this] False show "v' = a ! r" by simp
      qed
      ultimately have "fcc3_CCt a dCoeff ?m0 ! r ! c = a ! r" by (rule hit)
      then show ?thesis using rlt False by (simp add: spec_M_def)
    qed
  next
    case rge: False
    then have j: "r = nR + (r - nR)" "r - nR < nC - 1" using r by simp_all
    show ?thesis
    proof (cases "c < nR")
      case clt: True
      have "(r, c, a ! c) \<in> set ?ws"
        using cct_mem_ll [OF clt j(2), of a] j(1) by simp
      moreover have "\<forall>v'. (r, c, v') \<in> set ?ws \<longrightarrow> v' = a ! c"
      proof (intro allI impI)
        fix v' assume "(r, c, v') \<in> set ?ws"
        from cct_func_ll [OF _ clt this] rge show "v' = a ! c" by simp
      qed
      ultimately have "fcc3_CCt a dCoeff ?m0 ! r ! c = a ! c" by (rule hit)
      then show ?thesis using rge clt by (simp add: spec_M_def)
    next
      case cge: False
      show ?thesis
      proof (cases "r = c")
        case True
        have "(r, r, ?P) \<in> set ?ws"
          using cct_mem_pp [OF j(2), of nR a] j(1) by simp
        then have m: "(r, c, ?P) \<in> set ?ws" using True by simp
        have f: "\<forall>v'. (r, c, v') \<in> set ?ws \<longrightarrow> v' = ?P"
        proof (intro allI impI)
          fix v' assume "(r, c, v') \<in> set ?ws"
          then have "(r, r, v') \<in> set ?ws" using True by simp
          from cct_func_pp [OF _ this] rge show "v' = ?P" by simp
        qed
        have "fcc3_CCt a dCoeff ?m0 ! r ! c = ?P" by (rule hit [OF m f])
        then show ?thesis using rge True by (simp add: spec_M_def)
      next
        case False
        have "(r, c, v) \<notin> set ?ws" for v
          using cct_none_p0 [of nR r c v nC a] rge cge False by simp
        then have "fcc3_CCt a dCoeff ?m0 ! r ! c = 0" by (intro miss) simp
        then show ?thesis using rge cge False by (simp add: spec_M_def)
      qed
    qed
  qed
qed

lemma spec_M_sym: "spec_M nR nC a r c = spec_M nR nC a c r"
  by (auto simp: spec_M_def)

lemma fcc3_CCt_dims:
  "length (fcc3_CCt a dCoeff m) = length m"
  "length (fcc3_CCt a dCoeff m ! k) = length (m ! k)"
  by (simp_all add: fcc3_CCt_writes)

lemma fcc3_CCt_sym_upper:
  fixes a :: "real list"
  assumes nR: "GetRows dCoeff = nR" and nC: "GetColumns dCoeff = nC"
    and r: "r < nC + nR - 1" and c: "c < nC + nR - 1"
  shows "sym_upper (concat (fcc3_CCt a dCoeff (Initialize_mat (nC + nR - 1) (nC + nR - 1))))
           (nC + nR - 1) r c = spec_M nR nC a r c"
proof -
  let ?n = "nC + nR - 1"
  let ?m = "fcc3_CCt a dCoeff (Initialize_mat ?n ?n)"
  have uni: "\<forall>row\<in>set ?m. length row = ?n"
  proof
    fix row assume "row \<in> set ?m"
    then obtain k where "k < length ?m" "row = ?m ! k" by (auto simp: in_set_conv_nth)
    then show "length row = ?n" by (simp add: fcc3_CCt_dims)
  qed
  have len: "length ?m = ?n" by (simp add: fcc3_CCt_dims)
  have at: "concat ?m ! (i + k * ?n) = ?m ! k ! i" if "k < ?n" "i < ?n" for i k
    using nth_concat_uniform [OF uni, of k i] that len by (simp add: add.commute)
  show ?thesis
    using at [OF r c] at [OF c r] fcc3_CCt_entry [OF nR nC r c, of a]
      fcc3_CCt_entry [OF nR nC c r, of a] spec_M_sym [of nR nC a r c]
    by (simp add: sym_upper_def)
qed

lemma sum_list_upt_sum: "(\<Sum>j\<leftarrow>[0..<n]. f j) = (\<Sum>j<n. (f j :: real))"
  by (simp add: interv_sum_list_conv_sum_set_nat atLeast0LessThan)

lemma sum_flat:
  fixes f :: "nat \<Rightarrow> real"
  shows "(\<Sum>k<nR * nC. f k) = (\<Sum>i<nR. \<Sum>j<nC. f (i * nC + j))"
proof (induction nR)
  case 0
  show ?case by simp
next
  case (Suc nR)
  have "(\<Sum>k<Suc nR * nC. f k) = sum f {0..<nR * nC + nC}"
    by (simp add: lessThan_atLeast0 add.commute)
  also have "\<dots> = sum f {0..<nR * nC} + sum f {nR * nC..<nR * nC + nC}"
    by (rule sum.atLeastLessThan_concat [symmetric]) simp_all
  also have "sum f {nR * nC..<nR * nC + nC} = sum (\<lambda>j. f (j + nR * nC)) {0..<nC}"
    using sum.shift_bounds_nat_ivl [of f 0 "nR * nC" nC] by (simp add: add.commute)
  finally show ?case
    using Suc.IH by (simp add: lessThan_atLeast0 add.commute)
qed

lemma counter_inner_mat:
  "fold (\<lambda>j (m, ix). (mat_set m i j (g ix), ix + 1)) [0..<n]
     = (\<lambda>(m, ix). (fold (\<lambda>j m. mat_set m i j (g (ix + j))) [0..<n] m, ix + n))"
  using fold_counter [where F = "\<lambda>j ix m. mat_set m i j (g ix)" and d = 1 and n = n]
  by (auto simp: fun_eq_iff)

lemma fcc3_Store_loops:
  "fcc3_Store dRHS dCoeff =
     fold (\<lambda>i. fold (\<lambda>j m. mat_set m i j (dRHS ! (i * GetColumns dCoeff + j)))
                  [0..<GetColumns dCoeff]) [0..<GetRows dCoeff] dCoeff"
  using fold_counter [where F = "\<lambda>i ix m. fold (\<lambda>j m. mat_set m i j (dRHS ! (ix + j)))
                  [0..<GetColumns dCoeff] m" and d = "GetColumns dCoeff" and ?ix0.0 = 0
                  and n = "GetRows dCoeff" and ?s0.0 = dCoeff]
  unfolding fcc3_Store_def counter_inner_mat by simp

lemma GetColumns_uniform:
  "m \<noteq> [] \<Longrightarrow> \<forall>r\<in>set m. length r = nC \<Longrightarrow> GetColumns m = nC"
  by (cases m) (simp_all add: GetColumns_def)

lemma fcc3_Store_eq:
  assumes len: "length dCoeff = nR" and rows: "\<forall>r\<in>set dCoeff. length r = nC" and pos: "0 < nR"
  shows "fcc3_Store dRHS dCoeff = map (\<lambda>i. map (\<lambda>j. dRHS ! (i * nC + j)) [0..<nC]) [0..<nR]"
proof -
  have nR: "GetRows dCoeff = nR" by (simp add: GetRows_def len)
  have nC: "GetColumns dCoeff = nC"
    using len pos rows by (intro GetColumns_uniform) auto
  let ?res = "fold (\<lambda>i. fold (\<lambda>j m. mat_set m i j (dRHS ! (i * nC + j))) [0..<nC]) [0..<nR] dCoeff"
  have res: "fcc3_Store dRHS dCoeff = ?res" by (simp add: fcc3_Store_loops nR nC)
  have rowlen: "length (dCoeff ! i) = nC" if "i < nR" for i
    using rows that len by simp
  show ?thesis
    unfolding res
  proof (rule nth_equalityI)
    show "length ?res = length (map (\<lambda>i. map (\<lambda>j. dRHS ! (i * nC + j)) [0..<nC]) [0..<nR])"
      by (simp add: len)
  next
    fix i assume "i < length ?res"
    then have i: "i < nR" by (simp add: len)
    have "?res ! i = map (\<lambda>j. dRHS ! (i * nC + j)) [0..<nC]"
    proof (rule nth_equalityI)
      show "length (?res ! i) = length (map (\<lambda>j. dRHS ! (i * nC + j)) [0..<nC])"
        using rowlen [OF i] by simp
    next
      fix j assume "j < length (?res ! i)"
      then have j: "j < nC" using rowlen [OF i] by simp
      have "?res ! i ! j = dRHS ! (i * nC + j)"
      proof (rule nest_mat_hit [where R = "\<lambda>i j. i" and K = "\<lambda>i j. j"
              and V = "\<lambda>i j. dRHS ! (i * nC + j)" and i = i and j = j])
        show "i \<in> set [0..<nR]" using i by simp
        show "j \<in> set [0..<nC]" using j by simp
        show "\<forall>i'\<in>set [0..<nR]. \<forall>j'\<in>set [0..<nC]. i' = i \<and> j' = j \<longrightarrow>
                dRHS ! (i' * nC + j') = dRHS ! (i * nC + j)" by simp
        show "i < length dCoeff" using i len by simp
        show "j < length (dCoeff ! i)" using j rowlen [OF i] by simp
      qed
      then show "?res ! i ! j = map (\<lambda>j. dRHS ! (i * nC + j)) [0..<nC] ! j"
        using j by simp
    qed
    then show "?res ! i = map (\<lambda>i. map (\<lambda>j. dRHS ! (i * nC + j)) [0..<nC]) [0..<nR] ! i"
      using i by simp
  qed
qed

section \<open>The corrector in closed form\<close>

lemma Ccon_times_x:
  fixes nR nC :: nat and a :: "real list" and C :: "real list list"
  assumes c: "c < nC + nR - 1"
  shows "(\<Sum>i<nR. \<Sum>j<nC. (if c = i then 1 else if c = nR + j then a ! i else 0) * C ! i ! j)
       = (if c < nR then (\<Sum>j<nC. C ! c ! j) else (\<Sum>i<nR. a ! i * C ! i ! (c - nR)))"
proof (cases "c < nR")
  case True
  have "(\<Sum>j<nC. (if c = i then 1 else if c = nR + j then a ! i else 0) * C ! i ! j)
      = (if i = c then (\<Sum>j<nC. C ! c ! j) else 0)" for i
    using True by (auto intro!: sum.neutral)
  then show ?thesis using True by simp
next
  case False
  define j0 where "j0 = c - nR"
  have cj: "c = nR + j0" and j0: "j0 < nC" using False c by (simp_all add: j0_def)
  have "(\<Sum>j<nC. (if c = i then 1 else if c = nR + j then a ! i else 0) * C ! i ! j)
      = a ! i * C ! i ! j0" if "i < nR" for i
  proof -
    have "(\<Sum>j<nC. (if c = i then 1 else if c = nR + j then a ! i else 0) * C ! i ! j)
        = (\<Sum>j<nC. if j = j0 then a ! i * C ! i ! j0 else 0)"
      using that cj by (intro sum.cong) auto
    then show ?thesis using j0 by simp
  qed
  then show ?thesis using False by (simp add: j0_def)
qed

lemma Ccon_times_z:
  fixes nR nC :: nat and a z :: "real list"
  assumes i: "i < nR" and j: "j < nC"
  shows "(\<Sum>c<nC + nR - 1. (if c = i then 1 else if c = nR + j then a ! i else 0) * z ! c)
       = z ! i + (if j < nC - 1 then a ! i * z ! (nR + j) else 0)"
proof -
  have "(\<Sum>c<nC + nR - 1. (if c = i then 1 else if c = nR + j then a ! i else 0) * z ! c)
      = (\<Sum>c<nC + nR - 1. (if c = i then z ! i else 0) + (if c = nR + j then a ! i * z ! (nR + j) else 0))"
    using i by (intro sum.cong) auto
  also have "\<dots> = (\<Sum>c<nC + nR - 1. if c = i then z ! i else 0)
                + (\<Sum>c<nC + nR - 1. if c = nR + j then a ! i * z ! (nR + j) else 0)"
    by (rule sum.distrib)
  also have "(\<Sum>c<nC + nR - 1. if c = i then z ! i else 0) = z ! i"
  proof -
    have "i < nC + nR - 1" using i j by simp
    then show ?thesis by simp
  qed
  also have "(\<Sum>c<nC + nR - 1. if c = nR + j then a ! i * z ! (nR + j) else 0)
      = (if j < nC - 1 then a ! i * z ! (nR + j) else 0)"
    using j by auto
  finally show ?thesis .
qed

lemma FCC3_char:
  fixes C :: DataMatrix
  assumes len: "length C = nR" and rows: "\<forall>r\<in>set C. length r = nC"
    and nRpos: "0 < nR" and nCpos: "0 < nC"
  shows "ForceConsistencyConservation3 dposv a_src a_tgt C fMonotone =
     (case dposv CHR ''U'' (nC + nR - 1) 1
             (concat (fcc3_CCt a_tgt C (Initialize_mat (nC + nR - 1) (nC + nR - 1))))
             (nC + nR - 1) (spec_y a_src a_tgt C) (nC + nR - 1) of
        (nInfo, sol) \<Rightarrow>
          if nInfo \<noteq> 0 then Inl (SchurSolveFailed nInfo)
          else Inr (if fMonotone then ForceMonotonicity a_src (spec_update a_tgt C sol)
                    else spec_update a_tgt C sol))"
proof -
  define nCoeff where "nCoeff = nR * nC"
  define nCond where "nCond = nC + nR - 1"
  have gr: "GetRows C = nR" by (simp add: GetRows_def len)
  have gc: "GetColumns C = nC"
    using len nRpos rows by (intro GetColumns_uniform) auto
  define rA where "rA = fcc3_RHS C (Initialize_vec (nCoeff + nCond))"
  define dC1 where "dC1 = fold (\<lambda>i. fold (\<lambda>j dC. mat_set dC (i * nC + j) i 1) [0..<nC]) [0..<nR]
                    (Initialize_mat (nR * nC) (nC + nR - 1))"
  define dC2 where "dC2 = fold (\<lambda>j. fold (\<lambda>i dC. mat_set dC (i * nC + j) (nR + j) (a_tgt ! i)) [0..<nR])
                    [0..<nC - 1] dC1"
  define rB where "rB = fold (\<lambda>i r. r[nCoeff + i := 1]) [0..<nR] rA"
  define rC where "rC = fold (\<lambda>j r. r[nCoeff + (nR + j) := a_src ! j]) [0..<nC - 1] rB"
  have lenA: "length rA = nCoeff + nCond"
    by (simp add: rA_def Initialize_vec_def)
  have lenA': "length rA = nCoeff + (nC + nR - 1)"
    using lenA by (simp add: nCond_def)
  have st1: "fcc3_Consistency C nCoeff (Initialize_mat nCoeff nCond, rA, 0) = (dC1, rB, nR)"
    by (simp add: fcc3_Consistency_loops gr gc dC1_def rB_def nCoeff_def nCond_def)
  have st2: "fcc3_Conservation a_src a_tgt C nCoeff (dC1, rB, nR) = (dC2, rC, nR + (nC - 1))"
    by (simp add: fcc3_Conservation_loops gr gc dC2_def rC_def)
  have lenC: "length rC = nCoeff + nCond"
    using rhs_tail_entry(1) [OF lenA', where s = a_src] lenA by (simp add: rC_def rB_def)
  have rC_head: "rC ! (i * nC + j) = C ! i ! j" if "i < nR" "j < nC" for i j
  proof -
    have k: "i * nC + j < nCoeff"
      unfolding nCoeff_def by (rule flat_index_less [OF that])
    have "rC ! (i * nC + j) = rA ! (i * nC + j)"
      using rhs_tail_entry(2) [OF lenA' k, where s = a_src] by (simp add: rC_def rB_def)
    also have "\<dots> = C ! i ! j"
      unfolding rA_def
      using fcc3_RHS_head [where i = i and dCoeff = C and j = j and dRHS = "Initialize_vec (nCoeff + nCond)"] that
      by (simp add: gr gc Initialize_vec_def nCoeff_def)
    finally show ?thesis .
  qed
  have rC_tail: "rC ! (nCoeff + c) = (if c < nR then 1 else a_src ! (c - nR))" if "c < nCond" for c
    using rhs_tail_entry(3) [OF lenA', where c = c and s = a_src] that by (simp add: rC_def rB_def nCond_def)
  have dC_len: "length dC2 = nCoeff" and dC_rows: "\<forall>r\<in>set dC2. length r = nCond"
    using dC_dims [where a = a_tgt and nC = nC and nR = nR] by (simp_all add: dC2_def dC1_def nCoeff_def nCond_def)
  have dC_at: "concat dC2 ! (c + (i * nC + j) * nCond) =
                 (if c = i then 1 else if c = nR + j then a_tgt ! i else 0)"
    if "i < nR" "j < nC" "c < nCond" for i j c
  proof -
    have k: "i * nC + j < length dC2"
      using flat_index_less [OF that(1,2)] dC_len by (simp add: nCoeff_def)
    have "concat dC2 ! ((i * nC + j) * nCond + c) = dC2 ! (i * nC + j) ! c"
      by (rule nth_concat_uniform [OF dC_rows k that(3)])
    also have "\<dots> = (if c = i then 1 else if c = nR + j then a_tgt ! i else 0)"
      unfolding dC2_def dC1_def
      using that(3) by (intro dC_entry [OF that(1,2)]) (simp add: nCond_def)
    finally show ?thesis by (simp add: add.commute)
  qed
  define y where "y = dgemv CHR ''n'' nCond nCoeff 1 (concat dC2) nCond rC (- 1) (drop nCoeff rC)"
  have y_eq: "y = spec_y a_src a_tgt C"
  proof -
   have "y = map (\<lambda>c. 1 * (\<Sum>k\<leftarrow>[0..<nCoeff]. concat dC2 ! (c + k * nCond) * rC ! k)
                    + - 1 * drop nCoeff rC ! c) [0..<nCond]"
     by (simp add: y_def dgemv_def)
   also have "\<dots> = map (\<lambda>c. if c < nR then (\<Sum>j<nC. C ! c ! j) - 1
                else (\<Sum>i<nR. a_tgt ! i * C ! i ! (c - nR)) - a_src ! (c - nR)) [0..<nCond]"
   proof (rule map_cong [OF refl])
    fix c assume "c \<in> set [0..<nCond]"
    then have c: "c < nCond" by simp
    have "(\<Sum>k\<leftarrow>[0..<nCoeff]. concat dC2 ! (c + k * nCond) * rC ! k)
        = (\<Sum>i<nR. \<Sum>j<nC. concat dC2 ! (c + (i * nC + j) * nCond) * rC ! (i * nC + j))"
      by (simp add: sum_list_upt_sum nCoeff_def sum_flat)
    also have "\<dots> = (\<Sum>i<nR. \<Sum>j<nC.
                  (if c = i then 1 else if c = nR + j then a_tgt ! i else 0) * C ! i ! j)"
      using c by (intro sum.cong refl) (simp add: dC_at rC_head)
    also have "\<dots> = (if c < nR then (\<Sum>j<nC. C ! c ! j)
                     else (\<Sum>i<nR. a_tgt ! i * C ! i ! (c - nR)))"
      using c by (intro Ccon_times_x) (simp add: nCond_def)
    finally have "(\<Sum>k\<leftarrow>[0..<nCoeff]. concat dC2 ! (c + k * nCond) * rC ! k)
        = (if c < nR then (\<Sum>j<nC. C ! c ! j) else (\<Sum>i<nR. a_tgt ! i * C ! i ! (c - nR)))" .
    moreover have "drop nCoeff rC ! c = (if c < nR then 1 else a_src ! (c - nR))"
      using rC_tail [OF c] lenC c by simp
    ultimately show "1 * (\<Sum>k\<leftarrow>[0..<nCoeff]. concat dC2 ! (c + k * nCond) * rC ! k)
          + - 1 * drop nCoeff rC ! c
        = (if c < nR then (\<Sum>j<nC. C ! c ! j) - 1
           else (\<Sum>i<nR. a_tgt ! i * C ! i ! (c - nR)) - a_src ! (c - nR))"
      by simp
   qed
   also have "\<dots> = spec_y a_src a_tgt C"
     by (simp add: spec_y_def gr gc nCond_def)
   finally show ?thesis .
  qed
  have upd: "fcc3_Store
               (dgemv CHR ''t'' nCond nCoeff (- 1) (concat dC2) nCond sol 1 (take nCoeff rC @ sol) @ sol) C
             = spec_update a_tgt C sol" for sol
  proof -
    let ?g = "dgemv CHR ''t'' nCond nCoeff (- 1) (concat dC2) nCond sol 1 (take nCoeff rC @ sol)"
    have leng: "length ?g = nCoeff" by (simp add: dgemv_def)
    have g_at: "(?g @ sol) ! (i * nC + j) =
                  C ! i ! j - (sol ! i + (if j < nC - 1 then a_tgt ! i * sol ! (nR + j) else 0))"
      if "i < nR" "j < nC" for i j
    proof -
      have k: "i * nC + j < nCoeff"
        unfolding nCoeff_def by (rule flat_index_less [OF that])
      have "(\<Sum>c\<leftarrow>[0..<nCond]. concat dC2 ! (c + (i * nC + j) * nCond) * sol ! c)
          = (\<Sum>c<nCond. (if c = i then 1 else if c = nR + j then a_tgt ! i else 0) * sol ! c)"
        unfolding sum_list_upt_sum using that by (intro sum.cong refl) (simp add: dC_at)
      also have "\<dots> = sol ! i + (if j < nC - 1 then a_tgt ! i * sol ! (nR + j) else 0)"
        unfolding nCond_def by (rule Ccon_times_z [OF that])
      finally have s: "(\<Sum>c\<leftarrow>[0..<nCond]. concat dC2 ! (c + (i * nC + j) * nCond) * sol ! c)
          = sol ! i + (if j < nC - 1 then a_tgt ! i * sol ! (nR + j) else 0)" .
      have t: "(take nCoeff rC @ sol) ! (i * nC + j) = C ! i ! j"
        using k lenC rC_head [OF that] by (simp add: nth_append)
      have "(?g @ sol) ! (i * nC + j) = ?g ! (i * nC + j)"
        using k leng by (simp add: nth_append)
      also have "\<dots> = - 1 * (\<Sum>c\<leftarrow>[0..<nCond]. concat dC2 ! (c + (i * nC + j) * nCond) * sol ! c)
                       + 1 * (take nCoeff rC @ sol) ! (i * nC + j)"
        using k by (simp add: dgemv_def)
      also have "\<dots> = C ! i ! j - (sol ! i + (if j < nC - 1 then a_tgt ! i * sol ! (nR + j) else 0))"
        unfolding s t by simp
      finally show ?thesis .
    qed
    show ?thesis
      unfolding fcc3_Store_eq [OF len rows nRpos] spec_update_def Let_def gr gc
      by (intro map_cong refl) (simp add: g_at)
  qed
  have lenT: "length (take nCoeff rC) = nCoeff" using lenC by simp
  show ?thesis
    unfolding ForceConsistencyConservation3_def Let_def gr gc
    unfolding nCoeff_def [symmetric] nCond_def [symmetric]
    unfolding rA_def [symmetric] st1 prod.case st2
    unfolding y_def [symmetric]
    by (simp add: lenC upd y_eq split: prod.splits)
qed

lemma sum_split_blocks:
  fixes f :: "nat \<Rightarrow> real"
  shows "(\<Sum>c<nR + m. f c) = (\<Sum>c<nR. f c) + (\<Sum>j<m. f (nR + j))"
proof -
  have "(\<Sum>c<nR + m. f c) = sum f {0..<nR} + sum f {nR..<nR + m}"
    unfolding lessThan_atLeast0 by (rule sum.atLeastLessThan_concat [symmetric]) simp_all
  also have "sum f {nR..<nR + m} = (\<Sum>j<m. f (nR + j))"
    using sum.shift_bounds_nat_ivl [of f 0 nR m] by (simp add: lessThan_atLeast0 add.commute)
  finally show ?thesis by (simp add: lessThan_atLeast0)
qed

lemma nCond_split: "0 < nC \<Longrightarrow> nC + nR - 1 = nR + (nC - 1)" for nC nR :: nat
  by simp

lemma M_row_top:
  fixes a z :: "real list"
  assumes "i < nR" "0 < nC"
  shows "(\<Sum>c<nC + nR - 1. spec_M nR nC a i c * z ! c)
       = real nC * z ! i + a ! i * (\<Sum>j<nC - 1. z ! (nR + j))"
proof -
  have "(\<Sum>c<nR. spec_M nR nC a i c * z ! c) = (\<Sum>c<nR. if c = i then real nC * z ! i else 0)"
    using assms(1) by (intro sum.cong) (auto simp: spec_M_def)
  also have "\<dots> = real nC * z ! i" using assms(1) by simp
  finally have top: "(\<Sum>c<nR. spec_M nR nC a i c * z ! c) = real nC * z ! i" .
  have "(\<Sum>j<nC - 1. spec_M nR nC a i (nR + j) * z ! (nR + j)) = (\<Sum>j<nC - 1. a ! i * z ! (nR + j))"
    using assms(1) by (intro sum.cong) (auto simp: spec_M_def)
  also have "\<dots> = a ! i * (\<Sum>j<nC - 1. z ! (nR + j))" by (simp add: sum_distrib_left)
  finally show ?thesis
    unfolding nCond_split [OF assms(2)] sum_split_blocks top by simp
qed

lemma M_row_bot:
  fixes a z :: "real list"
  assumes "j < nC - 1"
  shows "(\<Sum>c<nC + nR - 1. spec_M nR nC a (nR + j) c * z ! c)
       = (\<Sum>i<nR. a ! i * z ! i) + (\<Sum>i<nR. a ! i * a ! i) * z ! (nR + j)"
proof -
  have nC: "0 < nC" using assms by simp
  have top: "(\<Sum>c<nR. spec_M nR nC a (nR + j) c * z ! c) = (\<Sum>i<nR. a ! i * z ! i)"
    by (intro sum.cong) (auto simp: spec_M_def)
  have "(\<Sum>k<nC - 1. spec_M nR nC a (nR + j) (nR + k) * z ! (nR + k))
      = (\<Sum>k<nC - 1. if k = j then (\<Sum>i<nR. a ! i * a ! i) * z ! (nR + j) else 0)"
    by (intro sum.cong) (auto simp: spec_M_def)
  also have "\<dots> = (\<Sum>i<nR. a ! i * a ! i) * z ! (nR + j)" using assms by simp
  finally show ?thesis
    unfolding nCond_split [OF nC] sum_split_blocks top by simp
qed

lemma sum_guarded_last:
  fixes g :: "nat \<Rightarrow> real"
  assumes "0 < nC"
  shows "(\<Sum>j<nC. if j < nC - 1 then g j else 0) = (\<Sum>j<nC - 1. g j)"
proof -
  obtain m where m: "nC = Suc m" using assms by (cases nC) auto
  show ?thesis by (simp add: m)
qed

lemma schur_equations:
  fixes C :: DataMatrix
  assumes exact: "dposv_exact dposv"
    and len: "length C = nR" and rows: "\<forall>r\<in>set C. length r = nC"
    and nRpos: "0 < nR" and nCpos: "0 < nC"
    and call: "dposv CHR ''U'' (nC + nR - 1) 1
             (concat (fcc3_CCt a_tgt C (Initialize_mat (nC + nR - 1) (nC + nR - 1))))
             (nC + nR - 1) (spec_y a_src a_tgt C) (nC + nR - 1) = (0, z)"
  shows "\<forall>i<nR. real nC * z ! i + a_tgt ! i * (\<Sum>j<nC - 1. z ! (nR + j))
                 = (\<Sum>j<nC. C ! i ! j) - 1"
    and "\<forall>j<nC - 1. (\<Sum>i<nR. a_tgt ! i * z ! i) + (\<Sum>i<nR. a_tgt ! i * a_tgt ! i) * z ! (nR + j)
                 = (\<Sum>i<nR. a_tgt ! i * C ! i ! j) - a_src ! j"
proof -
  let ?n = "nC + nR - 1"
  let ?A = "concat (fcc3_CCt a_tgt C (Initialize_mat ?n ?n))"
  have gr: "GetRows C = nR" by (simp add: GetRows_def len)
  have gc: "GetColumns C = nC"
    using len nRpos rows by (intro GetColumns_uniform) auto
  from exact call have sol: "\<forall>i<?n. (\<Sum>j<?n. sym_upper ?A ?n i j * z ! j) = spec_y a_src a_tgt C ! i"
    unfolding dposv_exact_def by blast
  have eqn: "(\<Sum>c<?n. spec_M nR nC a_tgt r c * z ! c) = spec_y a_src a_tgt C ! r" if r: "r < ?n" for r
  proof -
    have "(\<Sum>c<?n. spec_M nR nC a_tgt r c * z ! c) = (\<Sum>c<?n. sym_upper ?A ?n r c * z ! c)"
    proof (intro sum.cong refl)
      fix c assume "c \<in> {..<?n}"
      then have "c < ?n" by simp
      from fcc3_CCt_sym_upper [OF gr gc r this, of a_tgt]
      show "spec_M nR nC a_tgt r c * z ! c = sym_upper ?A ?n r c * z ! c" by simp
    qed
    with sol r show ?thesis by simp
  qed
  show "\<forall>i<nR. real nC * z ! i + a_tgt ! i * (\<Sum>j<nC - 1. z ! (nR + j))
                 = (\<Sum>j<nC. C ! i ! j) - 1"
  proof (intro allI impI)
    fix i assume i: "i < nR"
    then have r: "i < ?n" using nCpos by simp
    have "spec_y a_src a_tgt C ! i = (\<Sum>j<nC. C ! i ! j) - 1"
      using r i by (simp add: spec_y_def gr gc)
    with eqn [OF r] M_row_top [OF i nCpos, of a_tgt z]
    show "real nC * z ! i + a_tgt ! i * (\<Sum>j<nC - 1. z ! (nR + j)) = (\<Sum>j<nC. C ! i ! j) - 1"
      by simp
  qed
  show "\<forall>j<nC - 1. (\<Sum>i<nR. a_tgt ! i * z ! i) + (\<Sum>i<nR. a_tgt ! i * a_tgt ! i) * z ! (nR + j)
                 = (\<Sum>i<nR. a_tgt ! i * C ! i ! j) - a_src ! j"
  proof (intro allI impI)
    fix j assume j: "j < nC - 1"
    then have r: "nR + j < ?n" by simp
    have "spec_y a_src a_tgt C ! (nR + j) = (\<Sum>i<nR. a_tgt ! i * C ! i ! j) - a_src ! j"
      using r by (simp add: spec_y_def gr gc)
    with eqn [OF r] M_row_bot [OF j, of nR a_tgt z]
    show "(\<Sum>i<nR. a_tgt ! i * z ! i) + (\<Sum>i<nR. a_tgt ! i * a_tgt ! i) * z ! (nR + j)
                 = (\<Sum>i<nR. a_tgt ! i * C ! i ! j) - a_src ! j"
      by simp
  qed
qed

lemma spec_update_dims:
  assumes "GetRows C = nR" "GetColumns C = nC"
  shows "length (spec_update a_tgt C z) = nR"
    and "i < nR \<Longrightarrow> length (spec_update a_tgt C z ! i) = nC"
    and "i < nR \<Longrightarrow> j < nC \<Longrightarrow> spec_update a_tgt C z ! i ! j =
           C ! i ! j - (z ! i + (if j < nC - 1 then a_tgt ! i * z ! (nR + j) else 0))"
  using assms by (simp_all add: spec_update_def)

lemma spec_update_row:
  assumes "GetRows C = nR" "GetColumns C = nC" "i < nR"
  shows "spec_update a_tgt C z ! i =
           map (\<lambda>j. C ! i ! j - (z ! i + (if j < nC - 1 then a_tgt ! i * z ! (nR + j) else 0))) [0..<nC]"
  using assms by (simp add: spec_update_def)

lemma spec_update_row_sum:
  assumes gr: "GetRows C = nR" and gc: "GetColumns C = nC" and i: "i < nR" and nCpos: "0 < nC"
  shows "sum_list (spec_update a_tgt C z ! i)
       = (\<Sum>j<nC. C ! i ! j) - (real nC * z ! i + a_tgt ! i * (\<Sum>j<nC - 1. z ! (nR + j)))"
proof -
  have "sum_list (spec_update a_tgt C z ! i)
      = (\<Sum>j<nC. C ! i ! j - (z ! i + (if j < nC - 1 then a_tgt ! i * z ! (nR + j) else 0)))"
    unfolding spec_update_row [OF gr gc i] by (simp add: sum_list_upt_sum)
  also have "\<dots> = (\<Sum>j<nC. C ! i ! j) - (real nC * z ! i
                    + (\<Sum>j<nC. if j < nC - 1 then a_tgt ! i * z ! (nR + j) else 0))"
    by (simp add: sum_subtractf sum.distrib)
  also have "(\<Sum>j<nC. if j < nC - 1 then a_tgt ! i * z ! (nR + j) else 0)
      = a_tgt ! i * (\<Sum>j<nC - 1. z ! (nR + j))"
    unfolding sum_guarded_last [OF nCpos] by (simp add: sum_distrib_left)
  finally show ?thesis .
qed

lemma spec_update_col_sum:
  assumes gr: "GetRows C = nR" and gc: "GetColumns C = nC" and j: "j < nC - 1"
  shows "(\<Sum>i<nR. a_tgt ! i * spec_update a_tgt C z ! i ! j)
       = (\<Sum>i<nR. a_tgt ! i * C ! i ! j)
         - ((\<Sum>i<nR. a_tgt ! i * z ! i) + (\<Sum>i<nR. a_tgt ! i * a_tgt ! i) * z ! (nR + j))"
proof -
  have jn: "j < nC" using j by simp
  have "(\<Sum>i<nR. a_tgt ! i * spec_update a_tgt C z ! i ! j)
      = (\<Sum>i<nR. a_tgt ! i * C ! i ! j - (a_tgt ! i * z ! i + a_tgt ! i * a_tgt ! i * z ! (nR + j)))"
    using j jn by (intro sum.cong refl) (simp add: spec_update_dims(3) [OF gr gc] algebra_simps)
  also have "\<dots> = (\<Sum>i<nR. a_tgt ! i * C ! i ! j)
         - ((\<Sum>i<nR. a_tgt ! i * z ! i) + (\<Sum>i<nR. a_tgt ! i * a_tgt ! i) * z ! (nR + j))"
    by (simp add: sum_subtractf sum.distrib sum_distrib_right)
  finally show ?thesis .
qed

section \<open>Consistency, conservation and feasible inputs\<close>

lemma FCC3_False_cases:
  fixes C :: DataMatrix
  assumes len: "length C = nR" and rows: "\<forall>r\<in>set C. length r = nC"
    and nRpos: "0 < nR" and nCpos: "0 < nC"
  obtains (fail) info where "info \<noteq> 0"
      "ForceConsistencyConservation3 dposv a_src a_tgt C fMonotone = Inl (SchurSolveFailed info)"
  | (ok) z where
      "dposv CHR ''U'' (nC + nR - 1) 1
             (concat (fcc3_CCt a_tgt C (Initialize_mat (nC + nR - 1) (nC + nR - 1))))
             (nC + nR - 1) (spec_y a_src a_tgt C) (nC + nR - 1) = (0, z)"
      "ForceConsistencyConservation3 dposv a_src a_tgt C fMonotone =
         Inr (if fMonotone then ForceMonotonicity a_src (spec_update a_tgt C z)
              else spec_update a_tgt C z)"
proof -
  obtain info z where call: "dposv CHR ''U'' (nC + nR - 1) 1
             (concat (fcc3_CCt a_tgt C (Initialize_mat (nC + nR - 1) (nC + nR - 1))))
             (nC + nR - 1) (spec_y a_src a_tgt C) (nC + nR - 1) = (info, z)"
    by (cases "dposv CHR ''U'' (nC + nR - 1) 1
             (concat (fcc3_CCt a_tgt C (Initialize_mat (nC + nR - 1) (nC + nR - 1))))
             (nC + nR - 1) (spec_y a_src a_tgt C) (nC + nR - 1)")
  show thesis
  proof (cases "info = 0")
    case True
    show thesis
    proof (rule ok)
      show "dposv CHR ''U'' (nC + nR - 1) 1
             (concat (fcc3_CCt a_tgt C (Initialize_mat (nC + nR - 1) (nC + nR - 1))))
             (nC + nR - 1) (spec_y a_src a_tgt C) (nC + nR - 1) = (0, z)"
        using call True by simp
      show "ForceConsistencyConservation3 dposv a_src a_tgt C fMonotone =
         Inr (if fMonotone then ForceMonotonicity a_src (spec_update a_tgt C z)
              else spec_update a_tgt C z)"
        unfolding FCC3_char [OF len rows nRpos nCpos] call using True by simp
    qed
  next
    case False
    show thesis
    proof (rule fail [OF False])
      show "ForceConsistencyConservation3 dposv a_src a_tgt C fMonotone = Inl (SchurSolveFailed info)"
        unfolding FCC3_char [OF len rows nRpos nCpos] call using False by simp
    qed
  qed
qed

subsection \<open>A concrete run\<close>

lemma cramer2:
  fixes p q r u v d :: real
  assumes d: "d = p * r - q * q" and nz: "d \<noteq> 0"
  shows "p * ((r * u - q * v) / d) + q * ((p * v - q * u) / d) = u"
    and "q * ((r * u - q * v) / d) + r * ((p * v - q * u) / d) = v"
proof -
  have "p * ((r * u - q * v) / d) + q * ((p * v - q * u) / d)
      = (p * (r * u - q * v) + q * (p * v - q * u)) / d"
    by (simp add: add_divide_distrib)
  also have "p * (r * u - q * v) + q * (p * v - q * u) = d * u"
    unfolding d by (simp add: algebra_simps)
  finally show "p * ((r * u - q * v) / d) + q * ((p * v - q * u) / d) = u"
    using nz by simp
  have "q * ((r * u - q * v) / d) + r * ((p * v - q * u) / d)
      = (q * (r * u - q * v) + r * (p * v - q * u)) / d"
    by (simp add: add_divide_distrib)
  also have "q * (r * u - q * v) + r * (p * v - q * u) = d * v"
    unfolding d by (simp add: algebra_simps)
  finally show "q * ((r * u - q * v) / d) + r * ((p * v - q * u) / d) = v"
    using nz by simp
qed

lemma solver2_exact: "dposv_exact solver2"
  unfolding dposv_exact_def
proof (intro allI impI)
  fix n a lda b x i
  assume call: "solver2 CHR ''U'' n 1 a lda b n = (0, x)" and i: "i < n"
  define d where "d = a ! 0 * a ! (1 + lda) - a ! lda * a ! lda"
  from call have n: "n = 2" and d: "0 < d"
    and x: "x = [(a ! (1 + lda) * b ! 0 - a ! lda * b ! 1) / d,
                 (a ! 0 * b ! 1 - a ! lda * b ! 0) / d]"
    by (auto simp: solver2_def Let_def d_def split: if_splits)
  from d have nz: "d \<noteq> 0" by simp
  have s2: "(\<Sum>j<2. f j) = f 0 + f 1" for f :: "nat \<Rightarrow> real"
    by (simp add: numeral_2_eq_2)
  note sol = cramer2 [OF d_def nz, of "b ! 0" "b ! 1"]
  from i n have "i = 0 \<or> i = 1" by auto
  then show "(\<Sum>j<n. sym_upper a lda i j * x ! j) = b ! i"
  proof
    assume "i = 0"
    then show ?thesis
      using sol(1) unfolding n s2 x sym_upper_def by simp
  next
    assume "i = 1"
    then show ?thesis
      using sol(2) unfolding n s2 x sym_upper_def by simp
  qed
qed

lemma FCC3_run_raw:
  "ForceConsistencyConservation3 solver2 [1, 1] [2] [[1 / 4, 1 / 2]] False = Inr [[1 / 2, 1 / 2]]"
  by (simp add: ForceConsistencyConservation3_def GetRows_def GetColumns_def Initialize_mat_def
      Initialize_vec_def fcc3_RHS_def fcc3_Consistency_def fcc3_Conservation_def fcc3_CCt_def
      fcc3_Store_def mat_set_def dgemv_def solver2_def Let_def)

lemma FCC3_run_feasible:
  "ForceConsistencyConservation3 solver2 [1, 1] [2] [[1 / 2, 1 / 2]] False = Inr [[1 / 2, 1 / 2]]"
  by (simp add: ForceConsistencyConservation3_def GetRows_def GetColumns_def Initialize_mat_def
      Initialize_vec_def fcc3_RHS_def fcc3_Consistency_def fcc3_Conservation_def fcc3_CCt_def
      fcc3_Store_def mat_set_def dgemv_def solver2_def Let_def)

subsection \<open>The claims\<close>

text \<open>
  C1. For a coefficient matrix with \<open>nR \<ge> 1\<close> rows and \<open>nC \<ge> 1\<close> columns, and a solver that
  meets the contract of \<open>dposv\<close> in exact arithmetic, the corrector with
  \<open>monotone = false\<close> either stops with \<open>SchurSolveFailed\<close> (the solver reported a non-zero
  \<open>info\<close>) or returns a matrix of the same shape in which every row sums to 1.
\<close>

theorem FCC3_consistency:
  fixes C :: DataMatrix
  assumes exact: "dposv_exact dposv"
    and len: "length C = nR" and rows: "\<forall>r\<in>set C. length r = nC"
    and nRpos: "0 < nR" and nCpos: "0 < nC"
    and "length a_tgt = nR" and "length a_src = nC"
  shows "case ForceConsistencyConservation3 dposv a_src a_tgt C False of
           Inl e \<Rightarrow> (\<exists>info. info \<noteq> 0 \<and> e = SchurSolveFailed info)
         | Inr C' \<Rightarrow> length C' = nR \<and> (\<forall>i<nR. length (C' ! i) = nC \<and> sum_list (C' ! i) = 1)"
proof (rule FCC3_False_cases [OF len rows nRpos nCpos,
        where dposv = dposv and a_src = a_src and a_tgt = a_tgt and fMonotone = False])
  fix info :: int assume "info \<noteq> 0"
    and "ForceConsistencyConservation3 dposv a_src a_tgt C False = Inl (SchurSolveFailed info)"
  then show ?thesis by simp
next
  fix z
  assume call: "dposv CHR ''U'' (nC + nR - 1) 1
             (concat (fcc3_CCt a_tgt C (Initialize_mat (nC + nR - 1) (nC + nR - 1))))
             (nC + nR - 1) (spec_y a_src a_tgt C) (nC + nR - 1) = (0, z)"
    and res: "ForceConsistencyConservation3 dposv a_src a_tgt C False =
         Inr (if False then ForceMonotonicity a_src (spec_update a_tgt C z)
              else spec_update a_tgt C z)"
  have gr: "GetRows C = nR" by (simp add: GetRows_def len)
  have gc: "GetColumns C = nC"
    using len nRpos rows by (intro GetColumns_uniform) auto
  note eqs = schur_equations [OF exact len rows nRpos nCpos call]
  have "sum_list (spec_update a_tgt C z ! i) = 1" if i: "i < nR" for i
    using spec_update_row_sum [OF gr gc i nCpos, of a_tgt z] eqs(1) i by simp
  then show ?thesis
    unfolding res by (simp add: spec_update_dims [OF gr gc])
qed

theorem FCC3_consistency_witness:
  "dposv_exact solver2 \<and>
   ForceConsistencyConservation3 solver2 [1, 1] [2] [[1 / 4, 1 / 2]] False = Inr [[1 / 2, 1 / 2]] \<and>
   sum_list ([[1 / 2, 1 / 2]] ! 0) = (1 :: real)"
  using FCC3_consistency [OF solver2_exact, of "[[1 / 4, 1 / 2]]" 1 2 "[2]" "[1, 1]"]
    solver2_exact FCC3_run_raw
  by simp

lemma sum_list_nth_lessThan: "length (xs :: real list) = n \<Longrightarrow> sum_list xs = (\<Sum>i<n. xs ! i)"
  by (simp add: sum_list_sum_nth lessThan_atLeast0)

text \<open>
  C2. If moreover the target areas and the source areas have the same total, the matrix the
  corrector returns (\<open>monotone = false\<close>) satisfies conservation in every column,
  \<open>\<Sum>\<^sub>i a_tgt[i] \<cdot> C[i][j] = a_src[j]\<close>, the last column included: its equation is not
  part of the system and follows from the others, the row sums and the equal totals.
\<close>

theorem FCC3_conservation:
  fixes C :: DataMatrix
  assumes exact: "dposv_exact dposv"
    and len: "length C = nR" and rows: "\<forall>r\<in>set C. length r = nC"
    and nRpos: "0 < nR" and nCpos: "0 < nC"
    and lt: "length a_tgt = nR" and ls: "length a_src = nC"
    and total: "sum_list a_tgt = sum_list a_src"
  shows "case ForceConsistencyConservation3 dposv a_src a_tgt C False of
           Inl e \<Rightarrow> (\<exists>info. info \<noteq> 0 \<and> e = SchurSolveFailed info)
         | Inr C' \<Rightarrow> (\<forall>j<nC. (\<Sum>i<nR. a_tgt ! i * C' ! i ! j) = a_src ! j)"
proof (rule FCC3_False_cases [OF len rows nRpos nCpos,
        where dposv = dposv and a_src = a_src and a_tgt = a_tgt and fMonotone = False])
  fix info :: int assume "info \<noteq> 0"
    and "ForceConsistencyConservation3 dposv a_src a_tgt C False = Inl (SchurSolveFailed info)"
  then show ?thesis by simp
next
  fix z
  assume call: "dposv CHR ''U'' (nC + nR - 1) 1
             (concat (fcc3_CCt a_tgt C (Initialize_mat (nC + nR - 1) (nC + nR - 1))))
             (nC + nR - 1) (spec_y a_src a_tgt C) (nC + nR - 1) = (0, z)"
    and res: "ForceConsistencyConservation3 dposv a_src a_tgt C False =
         Inr (if False then ForceMonotonicity a_src (spec_update a_tgt C z)
              else spec_update a_tgt C z)"
  let ?C' = "spec_update a_tgt C z"
  have gr: "GetRows C = nR" by (simp add: GetRows_def len)
  have gc: "GetColumns C = nC"
    using len nRpos rows by (intro GetColumns_uniform) auto
  note eqs = schur_equations [OF exact len rows nRpos nCpos call]
  obtain m where m: "nC = Suc m" using nCpos by (cases nC) auto
  have inner: "(\<Sum>i<nR. a_tgt ! i * ?C' ! i ! j) = a_src ! j" if j: "j < m" for j
  proof -
    have "j < nC - 1" using j m by simp
    from spec_update_col_sum [OF gr gc this, of a_tgt z] eqs(2) this show ?thesis by simp
  qed
  have rowsum: "(\<Sum>j<nC. ?C' ! i ! j) = 1" if i: "i < nR" for i
  proof -
    have "sum_list (?C' ! i) = 1"
      using spec_update_row_sum [OF gr gc i nCpos, of a_tgt z] eqs(1) i by simp
    moreover have "length (?C' ! i) = nC" by (rule spec_update_dims(2) [OF gr gc i])
    ultimately show ?thesis by (simp add: sum_list_nth_lessThan)
  qed
  have last: "(\<Sum>i<nR. a_tgt ! i * ?C' ! i ! m) = a_src ! m"
  proof -
    have pt: "a_tgt ! i * ?C' ! i ! m = a_tgt ! i - (\<Sum>j<m. a_tgt ! i * ?C' ! i ! j)"
      if "i < nR" for i
    proof -
      have "?C' ! i ! m = 1 - (\<Sum>j<m. ?C' ! i ! j)"
        using rowsum [OF that] by (simp add: m)
      then have "a_tgt ! i * ?C' ! i ! m = a_tgt ! i * (1 - (\<Sum>j<m. ?C' ! i ! j))"
        by simp
      also have "\<dots> = a_tgt ! i - (\<Sum>j<m. a_tgt ! i * ?C' ! i ! j)"
        by (simp add: right_diff_distrib sum_distrib_left)
      finally show ?thesis .
    qed
    have "(\<Sum>i<nR. a_tgt ! i * ?C' ! i ! m)
        = (\<Sum>i<nR. a_tgt ! i - (\<Sum>j<m. a_tgt ! i * ?C' ! i ! j))"
      by (intro sum.cong refl) (simp add: pt)
    also have "\<dots> = (\<Sum>i<nR. a_tgt ! i) - (\<Sum>i<nR. \<Sum>j<m. a_tgt ! i * ?C' ! i ! j)"
      by (simp add: sum_subtractf)
    also have "(\<Sum>i<nR. \<Sum>j<m. a_tgt ! i * ?C' ! i ! j) = (\<Sum>j<m. \<Sum>i<nR. a_tgt ! i * ?C' ! i ! j)"
      by (rule sum.swap)
    also have "\<dots> = (\<Sum>j<m. a_src ! j)"
      by (intro sum.cong refl) (simp add: inner)
    also have "(\<Sum>i<nR. a_tgt ! i) = sum_list a_tgt"
      by (simp add: sum_list_nth_lessThan [OF lt])
    also have "sum_list a_tgt = (\<Sum>j<m. a_src ! j) + a_src ! m"
      unfolding total using sum_list_nth_lessThan [OF ls] by (simp add: m)
    finally show ?thesis by simp
  qed
  have "(\<Sum>i<nR. a_tgt ! i * ?C' ! i ! j) = a_src ! j" if "j < nC" for j
  proof (cases "j = m")
    case True
    with last show ?thesis by simp
  next
    case False
    with that m have "j < m" by simp
    then show ?thesis by (rule inner)
  qed
  then show ?thesis unfolding res by simp
qed

theorem FCC3_conservation_witness:
  "dposv_exact solver2 \<and> sum_list [2] = sum_list [1, 1 :: real] \<and>
   ForceConsistencyConservation3 solver2 [1, 1] [2] [[1 / 4, 1 / 2]] False = Inr [[1 / 2, 1 / 2]] \<and>
   [2] ! 0 * [[1 / 2, 1 / 2]] ! 0 ! 0 = [1, 1 :: real] ! 0 \<and>
   [2] ! 0 * [[1 / 2, 1 / 2]] ! 0 ! 1 = [1, 1 :: real] ! 1"
  using FCC3_conservation [OF solver2_exact, of "[[1 / 4, 1 / 2]]" 1 2 "[2]" "[1, 1]"]
    solver2_exact FCC3_run_raw
  by simp

text \<open>
  C3. If the input already has row sums 1 and satisfies conservation in every column, the
  corrector (\<open>monotone = false\<close>) returns it unchanged, unless the solver reports failure.
\<close>

theorem FCC3_identity_on_feasible:
  fixes C :: DataMatrix
  assumes exact: "dposv_exact dposv"
    and len: "length C = nR" and rows: "\<forall>r\<in>set C. length r = nC"
    and nRpos: "0 < nR" and nCpos: "0 < nC"
    and lt: "length a_tgt = nR" and ls: "length a_src = nC"
    and consistent: "\<forall>i<nR. sum_list (C ! i) = 1"
    and conservative: "\<forall>j<nC. (\<Sum>i<nR. a_tgt ! i * C ! i ! j) = a_src ! j"
  shows "case ForceConsistencyConservation3 dposv a_src a_tgt C False of
           Inl e \<Rightarrow> (\<exists>info. info \<noteq> 0 \<and> e = SchurSolveFailed info)
         | Inr C' \<Rightarrow> C' = C"
proof (rule FCC3_False_cases [OF len rows nRpos nCpos,
        where dposv = dposv and a_src = a_src and a_tgt = a_tgt and fMonotone = False])
  fix info :: int assume "info \<noteq> 0"
    and "ForceConsistencyConservation3 dposv a_src a_tgt C False = Inl (SchurSolveFailed info)"
  then show ?thesis by simp
next
  fix z
  assume call: "dposv CHR ''U'' (nC + nR - 1) 1
             (concat (fcc3_CCt a_tgt C (Initialize_mat (nC + nR - 1) (nC + nR - 1))))
             (nC + nR - 1) (spec_y a_src a_tgt C) (nC + nR - 1) = (0, z)"
    and res: "ForceConsistencyConservation3 dposv a_src a_tgt C False =
         Inr (if False then ForceMonotonicity a_src (spec_update a_tgt C z)
              else spec_update a_tgt C z)"
  have gr: "GetRows C = nR" by (simp add: GetRows_def len)
  have gc: "GetColumns C = nC"
    using len nRpos rows by (intro GetColumns_uniform) auto
  note eqs = schur_equations [OF exact len rows nRpos nCpos call]
  define S where "S = (\<Sum>j<nC - 1. z ! (nR + j))"
  define T where "T = (\<Sum>i<nR. a_tgt ! i * z ! i)"
  define P where "P = (\<Sum>i<nR. a_tgt ! i * a_tgt ! i)"
  have rowlen: "length (C ! i) = nC" if "i < nR" for i
    using rows that len by simp
  have a: "real nC * z ! i + a_tgt ! i * S = 0" if i: "i < nR" for i
  proof -
    have "(\<Sum>j<nC. C ! i ! j) = 1"
      using consistent i sum_list_nth_lessThan [OF rowlen [OF i]] by simp
    with eqs(1) i show ?thesis by (simp add: S_def)
  qed
  have b: "T + P * z ! (nR + j) = 0" if j: "j < nC - 1" for j
  proof -
    have "j < nC" using j by simp
    with conservative have "(\<Sum>i<nR. a_tgt ! i * C ! i ! j) = a_src ! j" by simp
    with eqs(2) j show ?thesis by (simp add: T_def P_def)
  qed
  have "(\<Sum>i<nR. a_tgt ! i * (real nC * z ! i + a_tgt ! i * S)) = 0"
    by (intro sum.neutral) (simp add: a)
  also have "(\<Sum>i<nR. a_tgt ! i * (real nC * z ! i + a_tgt ! i * S)) = real nC * T + P * S"
    by (simp add: T_def P_def algebra_simps sum.distrib sum_distrib_left)
  finally have sa: "real nC * T + P * S = 0" .
  have "(\<Sum>j<nC - 1. T + P * z ! (nR + j)) = 0"
    by (intro sum.neutral) (simp add: b)
  also have "(\<Sum>j<nC - 1. T + P * z ! (nR + j)) = real (nC - 1) * T + P * S"
    by (simp add: S_def sum.distrib sum_distrib_left)
  finally have sb: "real (nC - 1) * T + P * S = 0" .
  have "real nC * T = real (nC - 1) * T + T"
    using nCpos by (cases nC) (simp_all add: algebra_simps)
  with sa sb have T0: "T = 0" by linarith
  have corr: "z ! i + (if j < nC - 1 then a_tgt ! i * z ! (nR + j) else 0) = 0"
    if i: "i < nR" and j: "j < nC" for i j
  proof (cases "P = 0")
    case True
    have "\<forall>i\<in>{..<nR}. a_tgt ! i * a_tgt ! i = 0"
      using True unfolding P_def by (subst (asm) sum_nonneg_eq_0_iff) simp_all
    then have a0: "a_tgt ! i = 0" using i by simp
    with a [OF i] nCpos have "z ! i = 0" by simp
    with a0 show ?thesis by simp
  next
    case False
    have w0: "z ! (nR + k) = 0" if "k < nC - 1" for k
      using b [OF that] T0 False by simp
    then have "S = 0" unfolding S_def by (intro sum.neutral) simp
    with a [OF i] nCpos have "z ! i = 0" by simp
    with w0 show ?thesis by simp
  qed
  have "spec_update a_tgt C z = C"
  proof (rule nth_equalityI)
    show "length (spec_update a_tgt C z) = length C"
      by (simp add: spec_update_dims(1) [OF gr gc] len)
  next
    fix i assume "i < length (spec_update a_tgt C z)"
    then have i: "i < nR" by (simp add: spec_update_dims(1) [OF gr gc])
    show "spec_update a_tgt C z ! i = C ! i"
    proof (rule nth_equalityI)
      show "length (spec_update a_tgt C z ! i) = length (C ! i)"
        by (simp add: spec_update_dims(2) [OF gr gc i] rowlen [OF i])
    next
      fix j assume "j < length (spec_update a_tgt C z ! i)"
      then have j: "j < nC" by (simp add: spec_update_dims(2) [OF gr gc i])
      show "spec_update a_tgt C z ! i ! j = C ! i ! j"
        unfolding spec_update_dims(3) [OF gr gc i j] corr [OF i j] by simp
    qed
  qed
  then show ?thesis unfolding res by simp
qed

theorem FCC3_identity_on_feasible_witness:
  "dposv_exact solver2 \<and>
   sum_list ([[1 / 2, 1 / 2]] ! 0) = (1 :: real) \<and>
   [2] ! 0 * [[1 / 2, 1 / 2]] ! 0 ! 0 = [1, 1 :: real] ! 0 \<and>
   [2] ! 0 * [[1 / 2, 1 / 2]] ! 0 ! 1 = [1, 1 :: real] ! 1 \<and>
   ForceConsistencyConservation3 solver2 [1, 1] [2] [[1 / 2, 1 / 2]] False = Inr [[1 / 2, 1 / 2]]"
  using FCC3_identity_on_feasible [OF solver2_exact, of "[[1 / 2, 1 / 2]]" 1 2 "[2]" "[1, 1]"]
    solver2_exact FCC3_run_feasible
  by simp

section \<open>The monotone blend\<close>

lemma Max_insert_max:
  fixes a b :: real
  assumes "finite A"
  shows "Max (insert (max a b) A) = Max (insert a (insert b A))"
proof (cases "A = {}")
  case True
  then show ?thesis by simp
next
  case False
  have "Max (insert (max a b) A) = max (max a b) (Max A)"
    using assms False by (rule Max_insert)
  moreover have "Max (insert a (insert b A)) = max a (Max (insert b A))"
    using assms by (intro Max_insert) simp_all
  moreover have "Max (insert b A) = max b (Max A)"
    using assms False by (rule Max_insert)
  ultimately show ?thesis by (simp add: max.assoc)
qed

lemma fold_max_pairs:
  fixes g :: "'a \<Rightarrow> real"
  shows "fold (\<lambda>x a. if p x then (if g x > a then g x else a) else a) xs a0
       = Max (insert a0 (g ` {x \<in> set xs. p x}))"
proof (induction xs arbitrary: a0)
  case Nil
  show ?case by simp
next
  case (Cons x xs)
  let ?A = "g ` {x \<in> set xs. p x}"
  have fin: "finite ?A" by simp
  show ?case
  proof (cases "p x")
    case True
    have step: "(if g x > a0 then g x else a0) = max a0 (g x)" by (simp add: max_def)
    have set: "g ` {y \<in> set (x # xs). p y} = insert (g x) ?A" using True by auto
    have "Max (insert (max a0 (g x)) ?A) = Max (insert a0 (insert (g x) ?A))"
      using fin by (rule Max_insert_max)
    then show ?thesis
      using True unfolding fold_simps Cons.IH set by (simp add: step del: Max_insert)
  next
    case False
    have set: "g ` {y \<in> set (x # xs). p y} = ?A" using False by auto
    show ?thesis using False unfolding fold_simps Cons.IH set by simp
  qed
qed

lemma nest_as_pairs:
  "fold (\<lambda>i. fold (\<lambda>j. F (i, j)) ys) xs a = fold F (concat (map (\<lambda>i. map (\<lambda>j. (i, j)) ys) xs)) a"
  by (induction xs arbitrary: a) (simp_all add: fold_map comp_def)

lemma set_pairs_upt:
  "set (concat (map (\<lambda>i. map (\<lambda>j. (i, j)) [0..<nC]) [0..<nR])) = {(i, j). i < nR \<and> j < nC}"
  by auto

lemma inplace_row:
  assumes "i < length m" "n \<le> length (m ! i)"
  shows "fold (\<lambda>j m. mat_set m i j (g j (m ! i ! j))) [0..<n] m
       = m[i := map (\<lambda>j. g j (m ! i ! j)) [0..<n] @ drop n (m ! i)]"
  using assms(2)
proof (induction n)
  case 0
  show ?case by simp
next
  case (Suc n)
  let ?r = "m ! i"
  let ?xs = "map (\<lambda>j. g j (?r ! j)) [0..<n]"
  let ?m' = "m[i := ?xs @ drop n ?r]"
  from Suc.prems have n: "n < length ?r" by simp
  have IH: "fold (\<lambda>j m. mat_set m i j (g j (m ! i ! j))) [0..<n] m = ?m'"
    using Suc.IH Suc.prems by simp
  have row: "?m' ! i = ?xs @ drop n ?r" using assms(1) by simp
  have at: "(?xs @ drop n ?r) ! n = ?r ! n" using n by (simp add: nth_append)
  have upd: "(?xs @ drop n ?r)[n := v] = ?xs @ v # drop (Suc n) ?r" for v
    using n by (simp add: list_update_append Cons_nth_drop_Suc [symmetric])
  have "mat_set ?m' i n (g n (?m' ! i ! n)) = m[i := ?xs @ g n (?r ! n) # drop (Suc n) ?r]"
    unfolding mat_set_def row at upd by simp
  then show ?case by (simp add: IH)
qed

lemma inplace_rows:
  assumes "n \<le> length m" "\<forall>r\<in>set m. length r = nC"
  shows "fold (\<lambda>i. fold (\<lambda>j m. mat_set m i j (f i j (m ! i ! j))) [0..<nC]) [0..<n] m
       = map (\<lambda>i. map (\<lambda>j. f i j (m ! i ! j)) [0..<nC]) [0..<n] @ drop n m"
  using assms(1)
proof (induction n)
  case 0
  show ?case by simp
next
  case (Suc n)
  let ?pre = "map (\<lambda>i. map (\<lambda>j. f i j (m ! i ! j)) [0..<nC]) [0..<n]"
  let ?m' = "?pre @ drop n m"
  from Suc.prems have n: "n < length m" by simp
  have IH: "fold (\<lambda>i. fold (\<lambda>j m. mat_set m i j (f i j (m ! i ! j))) [0..<nC]) [0..<n] m = ?m'"
    using Suc.IH Suc.prems by simp
  have row: "?m' ! n = m ! n" using n by (simp add: nth_append)
  have len: "length (m ! n) = nC" using assms(2) n by simp
  have "fold (\<lambda>j m. mat_set m n j (f n j (m ! n ! j))) [0..<nC] ?m'
      = ?m'[n := map (\<lambda>j. f n j (?m' ! n ! j)) [0..<nC] @ drop nC (?m' ! n)]"
    using n len by (intro inplace_row) (simp_all add: row)
  also have "\<dots> = ?pre @ map (\<lambda>j. f n j (m ! n ! j)) [0..<nC] # drop (Suc n) m"
    using n len unfolding row
    by (simp add: list_update_append Cons_nth_drop_Suc [symmetric])
  finally show ?case by (simp add: IH)
qed

lemma inplace_map:
  assumes "length m = nR" "\<forall>r\<in>set m. length r = nC"
  shows "fold (\<lambda>i. fold (\<lambda>j m. mat_set m i j (f i j (m ! i ! j))) [0..<nC]) [0..<nR] m
       = map (\<lambda>i. map (\<lambda>j. f i j (m ! i ! j)) [0..<nC]) [0..<nR]"
  using inplace_rows [of nR m nC f] assms by simp

lemma nest_fold_max:
  fixes g :: "nat \<Rightarrow> nat \<Rightarrow> real"
  shows "fold (\<lambda>i. fold (\<lambda>j a. if p i j then (if g i j > a then g i j else a) else a) [0..<nC])
           [0..<nR] a0
       = Max (insert a0 {g i j | i j. i < nR \<and> j < nC \<and> p i j})"
proof -
  let ?ps = "concat (map (\<lambda>i. map (\<lambda>j. (i, j)) [0..<nC]) [0..<nR])"
  have "fold (\<lambda>i. fold (\<lambda>j a. if p i j then (if g i j > a then g i j else a) else a) [0..<nC])
           [0..<nR] a0
      = fold (\<lambda>x a. if p (fst x) (snd x) then (if g (fst x) (snd x) > a then g (fst x) (snd x) else a)
                       else a) ?ps a0"
    using nest_as_pairs [where F = "\<lambda>x a. if p (fst x) (snd x)
            then (if g (fst x) (snd x) > a then g (fst x) (snd x) else a) else a"
            and ys = "[0..<nC]" and xs = "[0..<nR]" and a = a0]
    by (simp cong: if_cong)
  also have "\<dots> = Max (insert a0 ((\<lambda>x. g (fst x) (snd x)) ` {x \<in> set ?ps. p (fst x) (snd x)}))"
    by (rule fold_max_pairs)
  also have "(\<lambda>x. g (fst x) (snd x)) ` {x \<in> set ?ps. p (fst x) (snd x)}
      = {g i j | i j. i < nR \<and> j < nC \<and> p i j}"
    unfolding set_pairs_upt by force
  finally show ?thesis .
qed

lemma ForceMonotonicity_char:
  fixes C :: DataMatrix
  assumes len: "length C = nR" and rows: "\<forall>r\<in>set C. length r = nC" and nRpos: "0 < nR"
  shows "ForceMonotonicity a_src C =
           map (\<lambda>i. map (\<lambda>j. (1 - spec_lambda a_src C) * C ! i ! j
                                 + spec_lambda a_src C * (a_src ! j / sum_list a_src))
                       [0..<nC]) [0..<nR]"
proof -
  have gr: "GetRows C = nR" by (simp add: GetRows_def len)
  have gc: "GetColumns C = nC"
    using len nRpos rows by (intro GetColumns_uniform) auto
  define total where "total = fold (\<lambda>i t. t + a_src ! i) [0..<length a_src] 0"
  have total: "total = sum_list a_src"
    by (simp add: total_def fold_add_sum sum_list_sum_nth lessThan_atLeast0)
  define D where "D = fold (\<lambda>i. fold (\<lambda>j m. mat_set m i j (a_src ! j / total)) [0..<nC]) [0..<nR]
                        (Initialize_mat nR nC)"
  have D: "D = map (\<lambda>i. map (\<lambda>j. a_src ! j / total) [0..<nC]) [0..<nR]"
    unfolding D_def
    using inplace_map [where f = "\<lambda>i j v. a_src ! j / total" and m = "Initialize_mat nR nC"
                        and nR = nR and nC = nC]
    by (simp add: Initialize_mat_def)
  have D_at: "D ! i ! j = a_src ! j / sum_list a_src" if "i < nR" "j < nC" for i j
    using that by (simp add: D total)
  define dA where "dA = fold (\<lambda>i. fold (\<lambda>j dA. if C ! i ! j < 0 then
                                (let dNewA = - (C ! i ! j) / \<bar>D ! i ! j - C ! i ! j\<bar>
                                 in if dNewA > dA then dNewA else dA)
                              else dA) [0..<nC]) [0..<nR] 0"
  have "dA = Max (insert 0 {- (C ! i ! j) / \<bar>D ! i ! j - C ! i ! j\<bar> | i j.
                      i < nR \<and> j < nC \<and> C ! i ! j < 0})"
    unfolding dA_def Let_def
    by (rule nest_fold_max [where p = "\<lambda>i j. C ! i ! j < 0"
          and g = "\<lambda>i j. - (C ! i ! j) / \<bar>D ! i ! j - C ! i ! j\<bar>"])
  also have "{- (C ! i ! j) / \<bar>D ! i ! j - C ! i ! j\<bar> | i j. i < nR \<and> j < nC \<and> C ! i ! j < 0}
      = {- (C ! i ! j) / \<bar>a_src ! j / sum_list a_src - C ! i ! j\<bar> | i j.
                      i < nR \<and> j < nC \<and> C ! i ! j < 0}"
    using D_at by (intro Collect_cong) (metis (no_types, lifting))
  finally have dA: "dA = spec_lambda a_src C"
    by (simp add: spec_lambda_def gr gc)
  have "ForceMonotonicity a_src C =
          fold (\<lambda>i. fold (\<lambda>j m. mat_set m i j ((1 - dA) * m ! i ! j + dA * D ! i ! j)) [0..<nC])
            [0..<nR] C"
    unfolding ForceMonotonicity_def Let_def gr gc total_def [symmetric] D_def [symmetric]
      dA_def [unfolded Let_def, symmetric] ..
  also have "\<dots> = map (\<lambda>i. map (\<lambda>j. (1 - dA) * C ! i ! j + dA * D ! i ! j) [0..<nC]) [0..<nR]"
    by (rule inplace_map [where f = "\<lambda>i j v. (1 - dA) * v + dA * D ! i ! j", OF len rows])
  also have "\<dots> = map (\<lambda>i. map (\<lambda>j. (1 - dA) * C ! i ! j + dA * (a_src ! j / sum_list a_src))
                       [0..<nC]) [0..<nR]"
    by (intro map_cong refl) (simp add: D_at)
  finally show ?thesis unfolding dA .
qed

lemma spec_lambda_bounds:
  fixes C :: DataMatrix
  assumes gr: "GetRows C = nR" and gc: "GetColumns C = nC"
    and nonneg: "\<forall>j<nC. 0 \<le> a_src ! j" and pos: "0 < sum_list a_src"
  shows "0 \<le> spec_lambda a_src C" and "spec_lambda a_src C \<le> 1"
    and "\<And>i j. i < nR \<Longrightarrow> j < nC \<Longrightarrow> C ! i ! j < 0 \<Longrightarrow>
           - (C ! i ! j) / \<bar>a_src ! j / sum_list a_src - C ! i ! j\<bar> \<le> spec_lambda a_src C"
proof -
  let ?cand = "\<lambda>i j. - (C ! i ! j) / \<bar>a_src ! j / sum_list a_src - C ! i ! j\<bar>"
  let ?S = "{?cand i j | i j. i < nR \<and> j < nC \<and> C ! i ! j < 0}"
  have "?S \<subseteq> (\<lambda>(i, j). ?cand i j) ` ({..<nR} \<times> {..<nC})" by auto
  then have fin: "finite (insert 0 ?S)"
    by (simp add: finite_subset)
  have lam: "spec_lambda a_src C = Max (insert 0 ?S)"
    by (simp add: spec_lambda_def gr gc)
  show "0 \<le> spec_lambda a_src C"
    unfolding lam using fin by (intro Max_ge) simp_all
  have le1: "s \<le> 1" if "s \<in> insert 0 ?S" for s
  proof (cases "s = 0")
    case True
    then show ?thesis by simp
  next
    case False
    with that obtain i j where ij: "i < nR" "j < nC" "C ! i ! j < 0" and s: "s = ?cand i j"
      by auto
    have "0 \<le> a_src ! j / sum_list a_src" using nonneg ij(2) pos by simp
    with ij(3) have "- (C ! i ! j) \<le> 1 * \<bar>a_src ! j / sum_list a_src - C ! i ! j\<bar>"
      and "0 < \<bar>a_src ! j / sum_list a_src - C ! i ! j\<bar>" by simp_all
    then show ?thesis unfolding s by (intro mult_imp_div_pos_le)
  qed
  show "spec_lambda a_src C \<le> 1"
    unfolding lam using fin le1 by (intro Max.boundedI) auto
  show "?cand i j \<le> spec_lambda a_src C" if "i < nR" "j < nC" "C ! i ! j < 0" for i j
    unfolding lam using fin that by (intro Max_ge) auto
qed

lemma blend_nonneg:
  fixes c d lam :: real
  assumes d: "0 \<le> d" and l0: "0 \<le> lam" and l1: "lam \<le> 1"
    and cover: "c < 0 \<Longrightarrow> - c / \<bar>d - c\<bar> \<le> lam"
  shows "0 \<le> (1 - lam) * c + lam * d"
proof (cases "c < 0")
  case False
  then have "0 \<le> (1 - lam) * c" using l1 by simp
  moreover have "0 \<le> lam * d" using l0 d by simp
  ultimately show ?thesis by simp
next
  case True
  have pos: "0 < d - c" using d True by simp
  then have "\<bar>d - c\<bar> = d - c" by simp
  with cover [OF True] have "- c / (d - c) \<le> lam" by simp
  then have "(- c / (d - c)) * (d - c) \<le> lam * (d - c)"
    using pos by (intro mult_right_mono) simp_all
  moreover have "(- c / (d - c)) * (d - c) = - c" using pos by simp
  ultimately have "- c \<le> lam * (d - c)" by linarith
  then show ?thesis by (simp add: algebra_simps)
qed

text \<open>
  C4. In exact arithmetic: for a matrix with \<open>nR \<ge> 1\<close> rows and \<open>nC \<ge> 1\<close> columns and
  nonnegative source areas with a positive total, every entry of the matrix that the
  corrector returns with \<open>monotone = true\<close> is nonnegative. The returned matrix is the blend
  \<open>(1 - \<lambda>) C\<^sub>0 + \<lambda> D\<close> of the corrected matrix \<open>C\<^sub>0\<close> (what the call with \<open>monotone = false\<close>
  returns) with the donor \<open>D[i][j] = a_src[j] / \<Sum>\<^sub>k a_src[k]\<close>, where \<open>\<lambda>\<close> is the largest
  \<open>-C\<^sub>0[i][j] / |D[i][j] - C\<^sub>0[i][j]|\<close> over the negative entries of \<open>C\<^sub>0\<close>, and 0 when there is
  none. No property of the solver is used.
\<close>

theorem FCC3_monotone_nonneg:
  fixes C :: DataMatrix
  assumes len: "length C = nR" and rows: "\<forall>r\<in>set C. length r = nC"
    and nRpos: "0 < nR" and nCpos: "0 < nC"
    and lt: "length a_tgt = nR" and ls: "length a_src = nC"
    and nonneg: "\<forall>x\<in>set a_src. 0 \<le> x" and pos: "0 < sum_list a_src"
  shows "case ForceConsistencyConservation3 dposv a_src a_tgt C True of
           Inl e \<Rightarrow> (\<exists>info. info \<noteq> 0 \<and> e = SchurSolveFailed info)
         | Inr C' \<Rightarrow>
             (\<forall>i<nR. \<forall>j<nC. 0 \<le> C' ! i ! j) \<and>
             (\<exists>C0. ForceConsistencyConservation3 dposv a_src a_tgt C False = Inr C0 \<and>
                (\<forall>i<nR. \<forall>j<nC. C' ! i ! j =
                   (1 - spec_lambda a_src C0) * C0 ! i ! j
                   + spec_lambda a_src C0 * (a_src ! j / sum_list a_src)))"
proof (rule FCC3_False_cases [OF len rows nRpos nCpos,
        where dposv = dposv and a_src = a_src and a_tgt = a_tgt and fMonotone = True])
  fix info :: int assume "info \<noteq> 0"
    and "ForceConsistencyConservation3 dposv a_src a_tgt C True = Inl (SchurSolveFailed info)"
  then show ?thesis by simp
next
  fix z
  assume call: "dposv CHR ''U'' (nC + nR - 1) 1
             (concat (fcc3_CCt a_tgt C (Initialize_mat (nC + nR - 1) (nC + nR - 1))))
             (nC + nR - 1) (spec_y a_src a_tgt C) (nC + nR - 1) = (0, z)"
    and res: "ForceConsistencyConservation3 dposv a_src a_tgt C True =
         Inr (if True then ForceMonotonicity a_src (spec_update a_tgt C z)
              else spec_update a_tgt C z)"
  let ?C0 = "spec_update a_tgt C z"
  let ?lam = "spec_lambda a_src ?C0"
  let ?D = "\<lambda>j. a_src ! j / sum_list a_src"
  have gr: "GetRows C = nR" by (simp add: GetRows_def len)
  have gc: "GetColumns C = nC"
    using len nRpos rows by (intro GetColumns_uniform) auto
  have len0: "length ?C0 = nR" by (rule spec_update_dims(1) [OF gr gc])
  have rows0: "\<forall>r\<in>set ?C0. length r = nC"
  proof
    fix r assume "r \<in> set ?C0"
    then obtain i where "i < length ?C0" "r = ?C0 ! i" by (auto simp: in_set_conv_nth)
    then show "length r = nC" using spec_update_dims(2) [OF gr gc] len0 by simp
  qed
  have gr0: "GetRows ?C0 = nR" by (simp add: GetRows_def len0)
  have gc0: "GetColumns ?C0 = nC"
    using len0 nRpos rows0 by (intro GetColumns_uniform) auto
  have res0: "ForceConsistencyConservation3 dposv a_src a_tgt C False = Inr ?C0"
    unfolding FCC3_char [OF len rows nRpos nCpos] call by simp
  have src: "\<forall>j<nC. 0 \<le> a_src ! j" using nonneg ls by simp
  note lam = spec_lambda_bounds [OF gr0 gc0 src pos]
  have at: "ForceMonotonicity a_src ?C0 ! i ! j = (1 - ?lam) * ?C0 ! i ! j + ?lam * ?D j"
    if "i < nR" "j < nC" for i j
    unfolding ForceMonotonicity_char [OF len0 rows0 nRpos] using that by simp
  have nn: "0 \<le> ForceMonotonicity a_src ?C0 ! i ! j" if ij: "i < nR" "j < nC" for i j
    unfolding at [OF ij]
  proof (rule blend_nonneg)
    show "0 \<le> ?D j" using src ij(2) pos by simp
    show "0 \<le> ?lam" by (rule lam(1))
    show "?lam \<le> 1" by (rule lam(2))
    show "- (?C0 ! i ! j) / \<bar>?D j - ?C0 ! i ! j\<bar> \<le> ?lam" if "?C0 ! i ! j < 0"
      by (rule lam(3) [OF ij that])
  qed
  show ?thesis
    unfolding res using nn at res0 by simp
qed

text \<open>
  A run with a solver that meets the contract of \<open>dposv\<close>: the corrected matrix is
  \<open>[[3/2, -1/2]]\<close>, the donor \<open>[[3/4, 1/4]]\<close> and \<open>\<lambda> = 2/3\<close>.
\<close>

lemma FCC3_run_corrected:
  "ForceConsistencyConservation3 solver2 [3, 1] [2] [[1 / 4, 1 / 2]] False = Inr [[3 / 2, - 1 / 2]]"
  by (simp add: ForceConsistencyConservation3_def GetRows_def GetColumns_def Initialize_mat_def
      Initialize_vec_def fcc3_RHS_def fcc3_Consistency_def fcc3_Conservation_def fcc3_CCt_def
      fcc3_Store_def mat_set_def dgemv_def solver2_def Let_def)

lemma FCC3_run_blend:
  "ForceConsistencyConservation3 solver2 [3, 1] [2] [[1 / 4, 1 / 2]] True = Inr [[1, 0]]"
  by (simp add: ForceConsistencyConservation3_def GetRows_def GetColumns_def Initialize_mat_def
      Initialize_vec_def fcc3_RHS_def fcc3_Consistency_def fcc3_Conservation_def fcc3_CCt_def
      fcc3_Store_def ForceMonotonicity_def mat_set_def dgemv_def solver2_def Let_def)

theorem FCC3_monotone_nonneg_witness:
  "dposv_exact solver2 \<and>
   (0 :: real) < sum_list [3, 1] \<and>
   ForceConsistencyConservation3 solver2 [3, 1] [2] [[1 / 4, 1 / 2]] False
     = Inr [[3 / 2, - 1 / 2]] \<and>
   ForceConsistencyConservation3 solver2 [3, 1] [2] [[1 / 4, 1 / 2]] True = Inr [[1, 0]] \<and>
   (0 :: real) \<le> [[1, 0]] ! 0 ! 0 \<and> (0 :: real) \<le> [[1, 0]] ! 0 ! 1"
  using FCC3_monotone_nonneg [of "[[1 / 4, 1 / 2]]" 1 2 "[2]" "[3, 1]" solver2]
    solver2_exact FCC3_run_corrected FCC3_run_blend
  by simp

subsection \<open>The blend in double arithmetic\<close>

lemma powi2_less_imp:
  assumes "(2::real) powi m < 2 powi n"
  shows "m < n"
proof (rule ccontr)
  assume "\<not> m < n"
  then have "n \<le> m" by simp
  then have "(2::real) powi n \<le> 2 powi m" by (rule power_int_increasing) simp
  with assms show False by simp
qed

lemma double_exponent_from_eq:
  assumes "2 powi e \<le> a" "a < 2 powi (e + 1)" "- 1022 \<le> e" "e \<le> int n - 1022"
  shows "double_exponent_from n a = e"
  using assms
proof (induction n)
  case 0
  then show ?case by simp
next
  case (Suc n)
  show ?case
  proof (cases "(2::real) powi (int n - 1021) \<le> a")
    case True
    with Suc.prems(2) have "(2::real) powi (int n - 1021) < 2 powi (e + 1)" by simp
    then have "int n - 1021 < e + 1" by (rule powi2_less_imp)
    with Suc.prems(4) have "e = int n - 1021" by simp
    with True show ?thesis by simp
  next
    case False
    with Suc.prems(1) have "(2::real) powi e < 2 powi (int n - 1021)" by simp
    then have "e < int n - 1021" by (rule powi2_less_imp)
    then have "e \<le> int n - 1022" by simp
    from Suc.IH [OF Suc.prems(1,2,3) this] False show ?thesis by simp
  qed
qed

lemma double_exponent_from_small:
  "a < 2 powi (- 1021) \<Longrightarrow> double_exponent_from n a = - 1022"
proof (induction n)
  case 0
  show ?case by simp
next
  case (Suc n)
  have "(2::real) powi (- 1021) \<le> 2 powi (int n - 1021)"
    by (rule power_int_increasing) simp_all
  with Suc.prems have "\<not> 2 powi (int n - 1021) \<le> a" by simp
  with Suc show ?case by simp
qed

lemma double_exponent_eq:
  assumes "2 powi e \<le> \<bar>x\<bar>" "\<bar>x\<bar> < 2 powi (e + 1)" "- 1022 \<le> e" "e \<le> 1023"
  shows "double_exponent x = e"
  unfolding double_exponent_def using assms by (intro double_exponent_from_eq) simp_all

lemma round_double_eq:
  assumes "2 powi e \<le> \<bar>x\<bar>" "\<bar>x\<bar> < 2 powi (e + 1)" "- 1022 \<le> e" "e \<le> 1023"
  shows "round_double x = of_int (round_even (x / 2 powi (e - 52))) * 2 powi (e - 52)"
  unfolding round_double_def double_exponent_eq [OF assms] Let_def ..

lemma round_double_0 [simp]: "round_double 0 = 0"
  by (simp add: round_double_def round_even_def)

lemma rd_1: "round_double 1 = 1"
  using round_double_eq [where x = 1 and e = 0] by (simp add: round_even_def)

lemma rd_2: "round_double 2 = 2"
  using round_double_eq [where x = 2 and e = 1] by (simp add: round_even_def)

lemma rd_half: "round_double (1 / 2) = 1 / 2"
  using round_double_eq [where x = "1 / 2" and e = "- 1"] by (simp add: round_even_def)

lemma rd_57_2: "round_double (57 / 2) = 57 / 2"
  using round_double_eq [where x = "57 / 2" and e = 4] by (simp add: round_even_def)

lemma rd_56_57: "round_double (56 / 57) = 2212294553796033 / 2 ^ 51"
  using round_double_eq [where x = "56 / 57" and e = "- 1"] by (simp add: round_even_def)

lemma ForceMonotonicity_rounded_exact:
  "ForceMonotonicity_rounded (\<lambda>x. x) vecSourceArea dCoeff = ForceMonotonicity vecSourceArea dCoeff"
  by (simp add: ForceMonotonicity_rounded_def ForceMonotonicity_def)

lemma rd_m57_2: "round_double (- (57 / 2)) = - (57 / 2)"
  using round_double_eq [where x = "- (57 / 2)" and e = 4] by (simp add: round_even_def)

lemma rd_one_minus: "round_double (39505259889215 / 2251799813685248) = 39505259889215 / 2251799813685248"
  using round_double_eq [where x = "39505259889215 / 2251799813685248" and e = "- 6"]
  by (simp add: round_even_def)

lemma rd_mul_neg: "round_double (- (276536819224505 / 562949953421312)) = - (276536819224505 / 562949953421312)"
  using round_double_eq [where x = "- (276536819224505 / 562949953421312)" and e = "- 2"]
  by (simp add: round_even_def)

lemma rd_mul_pos: "round_double (1145652536787235 / 2251799813685248) = 1145652536787235 / 2251799813685248"
  using round_double_eq [where x = "1145652536787235 / 2251799813685248" and e = "- 1"]
  by (simp add: round_even_def)

lemma rd_mul_donor: "round_double (2212294553796033 / 4503599627370496) = 2212294553796033 / 4503599627370496"
  using round_double_eq [where x = "2212294553796033 / 4503599627370496" and e = "- 2"]
  by (simp add: round_even_def)

lemma rd_sum_neg: "round_double (- (7 / 4503599627370496)) = - (7 / 4503599627370496)"
  using round_double_eq [where x = "- (7 / 4503599627370496)" and e = "- 50"]
  by (simp add: round_even_def)

lemma rd_sum_pos: "round_double (4503599627370503 / 4503599627370496) = 4503599627370503 / 4503599627370496"
  using round_double_eq [where x = "4503599627370503 / 4503599627370496" and e = 0]
  by (simp add: round_even_def)

lemmas rd_values = rd_1 rd_2 rd_half rd_57_2 rd_56_57 rd_m57_2 rd_one_minus rd_mul_neg rd_mul_pos
  rd_mul_donor rd_sum_neg rd_sum_pos

lemma blend_double:
  "ForceMonotonicity_rounded round_double [1, 1] [[- 28, 29], [29, - 28]]
   = [[- (7 / 2 ^ 52), 4503599627370503 / 2 ^ 52], [4503599627370503 / 2 ^ 52, - (7 / 2 ^ 52)]]"
  by (simp add: ForceMonotonicity_rounded_def GetRows_def GetColumns_def Initialize_mat_def
      mat_set_def numeral_2_eq_2 rd_values)

lemma blend_exact:
  "ForceMonotonicity [1, 1] [[- 28, 29], [29, - 28]] = [[0, 1], [1, 0]]"
  by (simp add: ForceMonotonicity_def GetRows_def GetColumns_def Initialize_mat_def
      mat_set_def numeral_2_eq_2)

text \<open>
  In double arithmetic the blend can leave an entry below \<open>- 1 / 10 ^ 15\<close>. The matrix
  \<open>[[-28, 29], [29, -28]]\<close> has row sums 1 and, for the source and target areas \<open>[1, 1]\<close>,
  conservative columns, so the corrector hands it to the blend as it is. There
  \<open>dA = fl (28 / 28.5)\<close> is rounded down, every later operation is exact, and the entry
  \<open>(0, 0)\<close> comes out as \<open>- 7 / 2 ^ 52\<close>, about \<open>-1.55e-15\<close>, where exact arithmetic gives 0.
\<close>

theorem ForceMonotonicity_double_counterexample:
  "sum_list ([[- 28, 29], [29, - 28]] ! 0) = (1 :: real) \<and>
   sum_list ([[- 28, 29], [29, - 28]] ! 1) = (1 :: real) \<and>
   (\<Sum>i<2. [1, 1] ! i * [[- 28, 29], [29, - 28]] ! i ! 0) = ([1, 1] ! 0 :: real) \<and>
   (\<Sum>i<2. [1, 1] ! i * [[- 28, 29], [29, - 28]] ! i ! 1) = ([1, 1] ! 1 :: real) \<and>
   ForceMonotonicity [1, 1] [[- 28, 29], [29, - 28]] ! 0 ! 0 = 0 \<and>
   ForceMonotonicity_rounded round_double [1, 1] [[- 28, 29], [29, - 28]] ! 0 ! 0
     = - (7 / 2 ^ 52) \<and>
   - (7 / 2 ^ 52) < (- (1 / 10 ^ 15) :: real)"
  unfolding blend_exact blend_double by (simp add: numeral_2_eq_2)
section \<open>\<open>LinearRemapSE4\<close>: errors\<close>

subsection \<open>Loops that may throw\<close>

lemma fold_err_append:
  "fold_err f (xs @ ys) s = (case fold_err f xs s of Inl e \<Rightarrow> Inl e | Inr s' \<Rightarrow> fold_err f ys s')"
  by (induction xs arbitrary: s) (simp_all split: sum.splits)

lemma fold_err_upt_Suc:
  "fold_err f [0..<Suc n] s =
     (case fold_err f [0..<n] s of Inl e \<Rightarrow> Inl e | Inr s' \<Rightarrow> f n s')"
  by (simp add: fold_err_append split: sum.splits)

lemma fold_err_upt_Inl_iff:
  "fold_err f [0..<n] s = Inl e \<longleftrightarrow>
     (\<exists>k<n. \<exists>s'. fold_err f [0..<k] s = Inr s' \<and> f k s' = Inl e)"
proof (induction n)
  case 0
  show ?case by simp
next
  case (Suc n)
  show ?case
  proof (cases "fold_err f [0..<n] s")
    case (Inl e')
    have no: "\<not> (\<exists>s'. fold_err f [0..<k] s = Inr s' \<and> f k s' = Inl e)" if "n \<le> k" for k
    proof
      assume "\<exists>s'. fold_err f [0..<k] s = Inr s' \<and> f k s' = Inl e"
      then obtain s' where ok: "fold_err f [0..<k] s = Inr s'" by blast
      have "[0..<n + (k - n)] = [0..<n] @ [n..<n + (k - n)]" by (rule upt_add_eq_append) simp
      then have "[0..<k] = [0..<n] @ [n..<k]" using that by simp
      with ok Inl show False by (simp add: fold_err_append)
    qed
    have "fold_err f [0..<Suc n] s = Inl e \<longleftrightarrow> fold_err f [0..<n] s = Inl e"
      using Inl by (simp add: fold_err_append)
    also have "\<dots> \<longleftrightarrow> (\<exists>k<n. \<exists>s'. fold_err f [0..<k] s = Inr s' \<and> f k s' = Inl e)"
      by (rule Suc.IH)
    also have "\<dots> \<longleftrightarrow> (\<exists>k<Suc n. \<exists>s'. fold_err f [0..<k] s = Inr s' \<and> f k s' = Inl e)"
      using no [of n] by (auto simp: less_Suc_eq)
    finally show ?thesis .
  next
    case (Inr s1)
    have "\<not> (\<exists>k<n. \<exists>s'. fold_err f [0..<k] s = Inr s' \<and> f k s' = Inl e)"
      using Suc.IH Inr by simp
    moreover have "fold_err f [0..<Suc n] s = Inl e \<longleftrightarrow> f n s1 = Inl e"
      using Inr by (simp add: fold_err_append split: sum.splits)
    ultimately show ?thesis using Inr by (auto simp: less_Suc_eq)
  qed
qed


lemma fold_err_bad:
  assumes "\<forall>x\<in>set xs. \<forall>s. (\<exists>e. f x s = Inl e) \<longleftrightarrow> bad x"
  shows "(\<exists>e. fold_err f xs s = Inl e) \<longleftrightarrow> (\<exists>x\<in>set xs. bad x)"
  using assms
proof (induction xs arbitrary: s)
  case Nil
  show ?case by simp
next
  case (Cons x xs)
  show ?case
  proof (cases "f x s")
    case (Inl e)
    with Cons.prems have "bad x" by auto
    with Inl show ?thesis by simp
  next
    case (Inr s')
    with Cons.prems have "\<not> bad x" by (metis list.set_intros(1) sum.distinct(1))
    moreover have "(\<exists>e. fold_err f xs s' = Inl e) \<longleftrightarrow> (\<exists>x\<in>set xs. bad x)"
      using Cons.prems by (intro Cons.IH) simp
    ultimately show ?thesis using Inr by simp
  qed
qed

subsection \<open>Which error, and when\<close>

lemma fold_err_Inl_elem:
  "fold_err f xs s = Inl e \<Longrightarrow> \<exists>x\<in>set xs. \<exists>s'. f x s' = Inl e"
  by (induction xs arbitrary: s) (auto split: sum.splits)

lemma se4_point_Inl_iff:
  "se4_point ext meshInput meshOverlap fMonotone nP ixFirst ixOv j k l t = Inl e \<longleftrightarrow>
     (case se4_inverse_map ext meshInput meshOverlap ixFirst ixOv j k l of
        (dAlpha, dBeta) \<Rightarrow>
          inverse_map_out_of_range dAlpha dBeta \<and> e = InverseMapOutOfRange dAlpha dBeta)"
  by (auto simp: se4_point_def Let_def split: prod.splits)

lemma se4_point_fails_iff:
  "(\<exists>e. se4_point ext meshInput meshOverlap fMonotone nP ixFirst ixOv j k l t = Inl e) \<longleftrightarrow>
     (case se4_inverse_map ext meshInput meshOverlap ixFirst ixOv j k l of
        (dAlpha, dBeta) \<Rightarrow> inverse_map_out_of_range dAlpha dBeta)"
  by (auto simp: se4_point_Inl_iff split: prod.splits)

lemma se4_quadrature_fails_iff:
  "(\<exists>e. se4_quadrature ext meshInput meshOverlap fMonotone nP ixFirst ixOv n = Inl e) \<longleftrightarrow>
     (\<exists>j<n. \<exists>k<nat (int (length (faces meshOverlap ! (ixOv + j))) - 2).
        \<exists>l<TriQuadraturePoints ext.
          case se4_inverse_map ext meshInput meshOverlap ixFirst ixOv j k l of
            (dAlpha, dBeta) \<Rightarrow> inverse_map_out_of_range dAlpha dBeta)"
proof -
  let ?bad = "\<lambda>j k l. case se4_inverse_map ext meshInput meshOverlap ixFirst ixOv j k l of
            (dAlpha, dBeta) \<Rightarrow> inverse_map_out_of_range dAlpha dBeta"
  let ?pt = "se4_point ext meshInput meshOverlap fMonotone nP ixFirst ixOv"
  let ?nt = "\<lambda>j. nat (int (length (faces meshOverlap ! (ixOv + j))) - 2)"
  have tri: "(\<exists>e. fold_err (?pt j k) [0..<TriQuadraturePoints ext] t = Inl e)
               \<longleftrightarrow> (\<exists>l\<in>set [0..<TriQuadraturePoints ext]. ?bad j k l)" for j k t
    by (rule fold_err_bad) (simp add: se4_point_fails_iff)
  have face: "(\<exists>e. fold_err (\<lambda>k. fold_err (?pt j k) [0..<TriQuadraturePoints ext]) [0..<?nt j] t = Inl e)
               \<longleftrightarrow> (\<exists>k\<in>set [0..<?nt j]. \<exists>l\<in>set [0..<TriQuadraturePoints ext]. ?bad j k l)" for j t
    by (rule fold_err_bad) (simp add: tri)
  have "(\<exists>e. se4_quadrature ext meshInput meshOverlap fMonotone nP ixFirst ixOv n = Inl e)
      \<longleftrightarrow> (\<exists>j\<in>set [0..<n]. \<exists>k\<in>set [0..<?nt j]. \<exists>l\<in>set [0..<TriQuadraturePoints ext]. ?bad j k l)"
    unfolding se4_quadrature_def Let_def by (rule fold_err_bad) (simp add: face)
  then show ?thesis by (simp add: Bex_def)
qed

lemma se4_quadrature_error:
  assumes "se4_quadrature ext meshInput meshOverlap fMonotone nP ixFirst ixOv n = Inl e"
  shows "\<exists>dAlpha dBeta. e = InverseMapOutOfRange dAlpha dBeta"
proof -
  from assms obtain j t where
    "fold_err (\<lambda>k. fold_err (se4_point ext meshInput meshOverlap fMonotone nP ixFirst ixOv j k)
                       [0..<TriQuadraturePoints ext])
       [0..<nat (int (length (faces meshOverlap ! (ixOv + j))) - 2)] t = Inl e"
    unfolding se4_quadrature_def Let_def by (blast dest: fold_err_Inl_elem)
  then obtain k t' where
    "fold_err (se4_point ext meshInput meshOverlap fMonotone nP ixFirst ixOv j k)
       [0..<TriQuadraturePoints ext] t' = Inl e"
    by (blast dest: fold_err_Inl_elem)
  then obtain l t'' where
    "se4_point ext meshInput meshOverlap fMonotone nP ixFirst ixOv j k l t'' = Inl e"
    by (blast dest: fold_err_Inl_elem)
  then show ?thesis by (auto simp: se4_point_Inl_iff split: prod.splits)
qed

lemma FCC3_error:
  "ForceConsistencyConservation3 dposv a_src a_tgt C fMonotone = Inl e \<Longrightarrow>
   \<exists>info. e = SchurSolveFailed info"
  by (auto simp: ForceConsistencyConservation3_def Let_def split: prod.splits if_splits)

lemma se4_correct_error:
  "se4_correct ext meshInput meshOverlap jac fMonotone nP ixFirst ixOv n t ann = Inl e \<Longrightarrow>
   \<exists>info. e = SchurSolveFailed info"
  by (auto simp: se4_correct_def Let_def split: prod.splits if_splits sum.splits dest: FCC3_error)

subsection \<open>Runs of the small instance\<close>

lemma rd_m1: "round_double (- 1) = - 1"
  using round_double_eq [where x = "- 1" and e = 0] by (simp add: round_even_def)

lemma rd_tol: "round_double (1 / 10000000000) = 7737125245533627 / 2 ^ 86"
  using round_double_eq [where x = "1 / 10000000000" and e = "- 34"]
  by (simp add: round_even_def)

lemmas se4_defs =
  LinearRemapSE4_def se4_loop_def se4_face_def se4_quadrature_def se4_point_def
  se4_inverse_map_def se4_triangle_area_def quadrature_node_def inverse_map_out_of_range_def
  se4_correct_def se4_vecSourceArea_def se4_vecTargetArea_def se4_flatten_def se4_unflatten_def
  se4_put_def sparse_add_def tensor_set_def Initialize_3D_def
  ForceConsistencyConservation3_def GetRows_def GetColumns_def Initialize_mat_def
  Initialize_vec_def fcc3_RHS_def fcc3_Consistency_def fcc3_Conservation_def fcc3_CCt_def
  fcc3_Store_def ForceMonotonicity_def mat_set_def dgemv_def solver2_def Let_def
  example_ext_def example_nodes_def example_input_def example_output_def example_overlap_def
  example_state_def numeral_2_eq_2 rd_1 rd_2 rd_half rd_m1 rd_tol


lemma run_unsupported:
  "LinearRemapSE4 (example_ext (1 / 2, 1 / 2)) (example_input [0, 1, 2] 1) example_output
     example_overlap [[[1]]] [[[1]]] False (\<lambda>_. 0) = Inl UnsupportedElement"
  by (simp add: se4_defs)

lemma run_out_of_range:
  "LinearRemapSE4 (example_ext (- 1 / 10 ^ 15, 1 / 2)) (example_input [0, 1, 2, 3] 1) example_output
     example_overlap [[[1]]] [[[1]]] False (\<lambda>_. 0)
   = Inl (InverseMapOutOfRange (- 1 / 10 ^ 15) (1 / 2))"
  by (simp add: se4_defs)


lemma run_full:
  "LinearRemapSE4 (example_ext (1 / 2, 1 / 2)) (example_input [0, 1, 2, 3] 1) example_output
     example_overlap [[[1]]] [[[1]]] False (\<lambda>_. 0)
   = Inr (example_state ((\<lambda>_. 0)((0, 0) := 1, (1, 0) := 1)) [AnnounceElement 0])"
  by (simp add: se4_defs)

lemma run_partial:
  "LinearRemapSE4 (example_ext (1 / 2, 1 / 2)) (example_input [0, 1, 2, 3] 2) example_output
     example_overlap [[[1]]] [[[1]]] False (\<lambda>_. 0)
   = Inr (example_state ((\<lambda>_. 0)((0, 0) := 1, (1, 0) := 1))
            [AnnounceElement 0, AnnouncePartialElement 0])"
  by (simp add: se4_defs)

subsection \<open>One input face\<close>

lemma se4_face_cases:
  fixes ext :: Externals and meshInput meshOutput meshOverlap :: Mesh
    and dataGLLNodes :: "int DataMatrix3D" and dataGLLJacobian :: "real DataMatrix3D"
    and fMonotone :: bool and ixFirst :: nat and st :: se4_state
  assumes quad: "length (faces meshInput ! ixFirst) = 4"
  defines "n \<equiv> count_overlap_faces meshOverlap ixFirst (state_ixOverlap st) 0"
  defines "ann \<equiv> (if ixFirst mod 100 = 0 then state_announced st @ [AnnounceElement ixFirst]
                    else state_announced st)"
  defines "q \<equiv> se4_quadrature ext meshInput meshOverlap fMonotone (GetRows dataGLLNodes) ixFirst
                  (state_ixOverlap st) n"
  shows "se4_face ext meshInput meshOutput meshOverlap dataGLLNodes dataGLLJacobian fMonotone
           ixFirst st =
         (if n = 0 then Inr (st \<lparr> state_announced := ann \<rparr>)
          else case q of
            Inl e \<Rightarrow> Inl e
          | Inr dRemapCoeff \<Rightarrow>
              (case se4_correct ext meshInput meshOverlap dataGLLJacobian fMonotone
                      (GetRows dataGLLNodes) ixFirst (state_ixOverlap st) n dRemapCoeff ann of
                 Inl e \<Rightarrow> Inl e
               | Inr (dRemapCoeff, announcements) \<Rightarrow>
                   Inr \<lparr> state_ixOverlap = state_ixOverlap st + n,
                         state_smatMap =
                           se4_put (rounding ext) meshOutput meshOverlap dataGLLNodes
                             (GetRows dataGLLNodes) ixFirst (state_ixOverlap st) n dRemapCoeff
                             (state_smatMap st),
                         state_announced = announcements \<rparr>))"
  using quad unfolding se4_face_def Let_def n_def ann_def q_def by simp

lemma se4_face_Unsupported_iff:
  "se4_face ext meshInput meshOutput meshOverlap dataGLLNodes dataGLLJacobian fMonotone ixFirst st
     = Inl UnsupportedElement \<longleftrightarrow> length (faces meshInput ! ixFirst) \<noteq> 4"
proof (cases "length (faces meshInput ! ixFirst) = 4")
  case False
  then show ?thesis by (simp add: se4_face_def Let_def)
next
  case True
  let ?n = "count_overlap_faces meshOverlap ixFirst (state_ixOverlap st) 0"
  let ?ann = "(if ixFirst mod 100 = 0 then state_announced st @ [AnnounceElement ixFirst]
                    else state_announced st)"
  let ?q = "se4_quadrature ext meshInput meshOverlap fMonotone (GetRows dataGLLNodes) ixFirst
              (state_ixOverlap st) ?n"
  note face = se4_face_cases [OF True, where ext = ext and meshOutput = meshOutput
      and meshOverlap = meshOverlap and dataGLLNodes = dataGLLNodes
      and dataGLLJacobian = dataGLLJacobian and fMonotone = fMonotone and st = st]
  have "se4_face ext meshInput meshOutput meshOverlap dataGLLNodes dataGLLJacobian fMonotone
          ixFirst st \<noteq> Inl UnsupportedElement"
  proof (cases "?n = 0")
    case True
    then show ?thesis unfolding face by simp
  next
    case n: False
    show ?thesis
    proof (cases ?q)
      case (Inl e)
      then obtain a b where "e = InverseMapOutOfRange a b"
        by (blast dest: se4_quadrature_error)
      then show ?thesis unfolding face using n Inl by simp
    next
      case (Inr t)
      show ?thesis
      proof (cases "se4_correct ext meshInput meshOverlap dataGLLJacobian fMonotone
                      (GetRows dataGLLNodes) ixFirst (state_ixOverlap st) ?n t ?ann")
        case (Inl e)
        then obtain info where "e = SchurSolveFailed info"
          by (blast dest: se4_correct_error)
        then show ?thesis unfolding face using n Inr Inl by simp
      next
        case (Inr r)
        obtain t' ann' where "r = (t', ann')" by (cases r)
        with Inr show ?thesis unfolding face using n \<open>?q = Inr t\<close> by simp
      qed
    qed
  qed
  with True show ?thesis by simp
qed

lemma se4_face_OutOfRange_iff:
  "(\<exists>dAlpha dBeta.
      se4_face ext meshInput meshOutput meshOverlap dataGLLNodes dataGLLJacobian fMonotone ixFirst st
        = Inl (InverseMapOutOfRange dAlpha dBeta)) \<longleftrightarrow>
   length (faces meshInput ! ixFirst) = 4 \<and>
   (\<exists>j<count_overlap_faces meshOverlap ixFirst (state_ixOverlap st) 0.
      \<exists>k<nat (int (length (faces meshOverlap ! (state_ixOverlap st + j))) - 2).
        \<exists>l<TriQuadraturePoints ext.
          case se4_inverse_map ext meshInput meshOverlap ixFirst (state_ixOverlap st) j k l of
            (dAlpha, dBeta) \<Rightarrow> inverse_map_out_of_range dAlpha dBeta)"
  (is "?L \<longleftrightarrow> _ \<and> ?bad")
proof (cases "length (faces meshInput ! ixFirst) = 4")
  case False
  then show ?thesis by (simp add: se4_face_def Let_def)
next
  case quad: True
  let ?n = "count_overlap_faces meshOverlap ixFirst (state_ixOverlap st) 0"
  let ?q = "se4_quadrature ext meshInput meshOverlap fMonotone (GetRows dataGLLNodes) ixFirst
              (state_ixOverlap st) ?n"
  have bad: "(\<exists>e. ?q = Inl e) \<longleftrightarrow> ?bad" by (rule se4_quadrature_fails_iff)
  show ?thesis
  proof (cases "?n = 0")
    case True
    then have "\<not> ?bad" by simp
    moreover have "\<not> ?L" using quad True by (simp add: se4_face_def Let_def)
    ultimately show ?thesis by blast
  next
    case n: False
    show ?thesis
    proof (cases ?q)
      case (Inl e)
      then obtain a b where e: "e = InverseMapOutOfRange a b"
        by (blast dest: se4_quadrature_error)
      have "se4_face ext meshInput meshOutput meshOverlap dataGLLNodes dataGLLJacobian fMonotone
              ixFirst st = Inl (InverseMapOutOfRange a b)"
        using quad n Inl e by (simp add: se4_face_def Let_def)
      then have ?L by blast
      moreover have ?bad
      proof (rule bad [THEN iffD1])
        show "\<exists>e. ?q = Inl e" using Inl by blast
      qed
      ultimately show ?thesis using quad by blast
    next
      case (Inr t)
      have nb: "\<not> ?bad"
      proof
        assume ?bad
        then have "\<exists>e. ?q = Inl e" by (rule bad [THEN iffD2])
        with Inr show False by simp
      qed
      note face = se4_face_cases [OF quad, where ext = ext and meshOutput = meshOutput
          and meshOverlap = meshOverlap and dataGLLNodes = dataGLLNodes
          and dataGLLJacobian = dataGLLJacobian and fMonotone = fMonotone and st = st]
      let ?ann = "(if ixFirst mod 100 = 0 then state_announced st @ [AnnounceElement ixFirst]
                    else state_announced st)"
      have "\<not> ?L"
      proof (cases "se4_correct ext meshInput meshOverlap dataGLLJacobian fMonotone
                      (GetRows dataGLLNodes) ixFirst (state_ixOverlap st) ?n t ?ann")
        case (Inl e)
        then obtain info where "e = SchurSolveFailed info"
          by (blast dest: se4_correct_error)
        then show ?thesis unfolding face using n \<open>?q = Inr t\<close> Inl by simp
      next
        case (Inr r)
        obtain t' ann' where "r = (t', ann')" by (cases r)
        with Inr show ?thesis unfolding face using n \<open>?q = Inr t\<close> by simp
      qed
      with nb show ?thesis by blast
    qed
  qed
qed

text \<open>
  C7. \<open>LinearRemapSE4\<close> fails with \<open>UnsupportedElement\<close> if and only if the loop over the
  input faces reaches a face that does not have exactly 4 edges. The check comes first in
  the loop body: for every face and every state in which the loop reaches it, the face ends
  with \<open>UnsupportedElement\<close> exactly when it does not have 4 edges, whatever the quadrature
  of that face would have done.
\<close>

theorem LinearRemapSE4_UnsupportedElement:
  "(LinearRemapSE4 ext meshInput meshOutput meshOverlap dataGLLNodes dataGLLJacobian fMonotone
      smatMap0 = Inl UnsupportedElement \<longleftrightarrow>
    (\<exists>ixFirst. ixFirst < length (faces meshInput) \<and>
       (\<exists>st. se4_loop ext meshInput meshOutput meshOverlap dataGLLNodes dataGLLJacobian fMonotone
               smatMap0 ixFirst = Inr st) \<and>
       length (faces meshInput ! ixFirst) \<noteq> 4)) \<and>
   (\<forall>ixFirst st.
      se4_face ext meshInput meshOutput meshOverlap dataGLLNodes dataGLLJacobian fMonotone
        ixFirst st = Inl UnsupportedElement \<longleftrightarrow> length (faces meshInput ! ixFirst) \<noteq> 4)"
  unfolding LinearRemapSE4_def se4_loop_def fold_err_upt_Inl_iff se4_face_Unsupported_iff
  by blast

text \<open>The run of the small instance on a triangle as input face is such a failure.\<close>

theorem LinearRemapSE4_UnsupportedElement_witness:
  "\<exists>ixFirst. ixFirst < length (faces (example_input [0, 1, 2] 1)) \<and>
     (\<exists>st. se4_loop (example_ext (1 / 2, 1 / 2)) (example_input [0, 1, 2] 1) example_output
             example_overlap [[[1]]] [[[1]]] False (\<lambda>_. 0) ixFirst = Inr st) \<and>
     length (faces (example_input [0, 1, 2] 1) ! ixFirst) \<noteq> 4"
  by (rule LinearRemapSE4_UnsupportedElement [THEN conjunct1, THEN iffD1, OF run_unsupported])

text \<open>
  The test on the inverse map has no tolerance: the run whose inverse map returns
  \<open>dAlpha = - 1 / 10 ^ 15\<close> fails with \<open>InverseMapOutOfRange\<close>, and no positive tolerance makes
  the test of the source the test of a range widened by it.
\<close>

theorem LinearRemapSE4_tolerance_counterexample:
  "LinearRemapSE4 (example_ext (- 1 / 10 ^ 15, 1 / 2)) (example_input [0, 1, 2, 3] 1)
     example_output example_overlap [[[1]]] [[[1]]] False (\<lambda>_. 0)
   = Inl (InverseMapOutOfRange (- 1 / 10 ^ 15) (1 / 2)) \<and>
   \<not> (\<exists>tol>0. \<forall>dAlpha dBeta.
         inverse_map_out_of_range dAlpha dBeta \<longleftrightarrow>
           dAlpha < - tol \<or> dAlpha > 1 + tol \<or> dBeta < - tol \<or> dBeta > 1 + tol)"
proof (rule conjI)
  show "LinearRemapSE4 (example_ext (- 1 / 10 ^ 15, 1 / 2)) (example_input [0, 1, 2, 3] 1)
     example_output example_overlap [[[1]]] [[[1]]] False (\<lambda>_. 0)
   = Inl (InverseMapOutOfRange (- 1 / 10 ^ 15) (1 / 2))"
    by (rule run_out_of_range)
  show "\<not> (\<exists>tol>0. \<forall>dAlpha dBeta.
         inverse_map_out_of_range dAlpha dBeta \<longleftrightarrow>
           dAlpha < - tol \<or> dAlpha > 1 + tol \<or> dBeta < - tol \<or> dBeta > 1 + tol)"
  proof
    assume "\<exists>tol>0. \<forall>dAlpha dBeta.
         inverse_map_out_of_range dAlpha dBeta \<longleftrightarrow>
           dAlpha < - tol \<or> dAlpha > 1 + tol \<or> dBeta < - tol \<or> dBeta > 1 + tol"
    then obtain tol :: real where tol: "0 < tol"
      and eq: "\<And>dAlpha dBeta. inverse_map_out_of_range dAlpha dBeta \<longleftrightarrow>
           dAlpha < - tol \<or> dAlpha > 1 + tol \<or> dBeta < - tol \<or> dBeta > 1 + tol"
      by blast
    have "inverse_map_out_of_range (- tol / 2) (1 / 2)"
      using tol by (simp add: inverse_map_out_of_range_def)
    then have "- tol / 2 < - tol \<or> - tol / 2 > 1 + tol \<or> (1 / 2 :: real) < - tol \<or> 1 / 2 > 1 + tol"
      by (rule eq [THEN iffD1])
    with tol show False by auto
  qed
qed

text \<open>
  C6. \<open>LinearRemapSE4\<close> fails with \<open>InverseMapOutOfRange\<close> if and only if the loop reaches a
  quadrilateral input face one of whose quadrature points has an inverse map with \<open>dAlpha\<close>
  or \<open>dBeta\<close> strictly below 0 or strictly above 1, with no tolerance. A quadrature point
  fails exactly then, and the error carries the pair as the inverse map returned it; no
  value is clamped.
\<close>

theorem LinearRemapSE4_InverseMapOutOfRange:
  "((\<exists>dAlpha dBeta.
       LinearRemapSE4 ext meshInput meshOutput meshOverlap dataGLLNodes dataGLLJacobian fMonotone
         smatMap0 = Inl (InverseMapOutOfRange dAlpha dBeta)) \<longleftrightarrow>
    (\<exists>ixFirst st.
       ixFirst < length (faces meshInput) \<and>
       se4_loop ext meshInput meshOutput meshOverlap dataGLLNodes dataGLLJacobian fMonotone
         smatMap0 ixFirst = Inr st \<and>
       length (faces meshInput ! ixFirst) = 4 \<and>
       (\<exists>j<count_overlap_faces meshOverlap ixFirst (state_ixOverlap st) 0.
          \<exists>k<nat (int (length (faces meshOverlap ! (state_ixOverlap st + j))) - 2).
          \<exists>l<TriQuadraturePoints ext.
          (case se4_inverse_map ext meshInput meshOverlap ixFirst (state_ixOverlap st) j k l of
             (dAlpha, dBeta) \<Rightarrow> dAlpha < 0 \<or> dAlpha > 1 \<or> dBeta < 0 \<or> dBeta > 1)))) \<and>
   (\<forall>nP ixFirst ixOverlap j k l dRemapCoeff e.
      se4_point ext meshInput meshOverlap fMonotone nP ixFirst ixOverlap j k l dRemapCoeff = Inl e
      \<longleftrightarrow>
      (case se4_inverse_map ext meshInput meshOverlap ixFirst ixOverlap j k l of
         (dAlpha, dBeta) \<Rightarrow>
           (dAlpha < 0 \<or> dAlpha > 1 \<or> dBeta < 0 \<or> dBeta > 1) \<and>
           e = InverseMapOutOfRange dAlpha dBeta))"
proof (rule conjI)
  let ?face = "se4_face ext meshInput meshOutput meshOverlap dataGLLNodes dataGLLJacobian fMonotone"
  let ?s0 = "\<lparr> state_ixOverlap = 0, state_smatMap = smatMap0, state_announced = [] \<rparr>"
  have "(\<exists>dAlpha dBeta. fold_err ?face [0..<length (faces meshInput)] ?s0
            = Inl (InverseMapOutOfRange dAlpha dBeta)) \<longleftrightarrow>
        (\<exists>ixFirst st. ixFirst < length (faces meshInput) \<and>
           fold_err ?face [0..<ixFirst] ?s0 = Inr st \<and>
           (\<exists>dAlpha dBeta. ?face ixFirst st = Inl (InverseMapOutOfRange dAlpha dBeta)))"
    unfolding fold_err_upt_Inl_iff by blast
  also have "\<dots> \<longleftrightarrow>
        (\<exists>ixFirst st. ixFirst < length (faces meshInput) \<and>
           fold_err ?face [0..<ixFirst] ?s0 = Inr st \<and>
           length (faces meshInput ! ixFirst) = 4 \<and>
           (\<exists>j<count_overlap_faces meshOverlap ixFirst (state_ixOverlap st) 0.
              \<exists>k<nat (int (length (faces meshOverlap ! (state_ixOverlap st + j))) - 2).
              \<exists>l<TriQuadraturePoints ext.
              (case se4_inverse_map ext meshInput meshOverlap ixFirst (state_ixOverlap st) j k l of
                 (dAlpha, dBeta) \<Rightarrow> dAlpha < 0 \<or> dAlpha > 1 \<or> dBeta < 0 \<or> dBeta > 1)))"
    unfolding se4_face_OutOfRange_iff inverse_map_out_of_range_def ..
  finally show "(\<exists>dAlpha dBeta.
       LinearRemapSE4 ext meshInput meshOutput meshOverlap dataGLLNodes dataGLLJacobian fMonotone
         smatMap0 = Inl (InverseMapOutOfRange dAlpha dBeta)) \<longleftrightarrow>
    (\<exists>ixFirst st.
       ixFirst < length (faces meshInput) \<and>
       se4_loop ext meshInput meshOutput meshOverlap dataGLLNodes dataGLLJacobian fMonotone
         smatMap0 ixFirst = Inr st \<and>
       length (faces meshInput ! ixFirst) = 4 \<and>
       (\<exists>j<count_overlap_faces meshOverlap ixFirst (state_ixOverlap st) 0.
          \<exists>k<nat (int (length (faces meshOverlap ! (state_ixOverlap st + j))) - 2).
          \<exists>l<TriQuadraturePoints ext.
          (case se4_inverse_map ext meshInput meshOverlap ixFirst (state_ixOverlap st) j k l of
             (dAlpha, dBeta) \<Rightarrow> dAlpha < 0 \<or> dAlpha > 1 \<or> dBeta < 0 \<or> dBeta > 1)))"
    unfolding LinearRemapSE4_def se4_loop_def .
next
  show "\<forall>nP ixFirst ixOverlap j k l dRemapCoeff e.
      se4_point ext meshInput meshOverlap fMonotone nP ixFirst ixOverlap j k l dRemapCoeff = Inl e
      \<longleftrightarrow>
      (case se4_inverse_map ext meshInput meshOverlap ixFirst ixOverlap j k l of
         (dAlpha, dBeta) \<Rightarrow>
           (dAlpha < 0 \<or> dAlpha > 1 \<or> dBeta < 0 \<or> dBeta > 1) \<and>
           e = InverseMapOutOfRange dAlpha dBeta)"
    unfolding se4_point_Inl_iff inverse_map_out_of_range_def by blast
qed

theorem LinearRemapSE4_InverseMapOutOfRange_witness:
  "\<exists>ixFirst st.
     ixFirst < length (faces (example_input [0, 1, 2, 3] 1)) \<and>
     se4_loop (example_ext (- 1 / 10 ^ 15, 1 / 2)) (example_input [0, 1, 2, 3] 1) example_output
       example_overlap [[[1]]] [[[1]]] False (\<lambda>_. 0) ixFirst = Inr st \<and>
     length (faces (example_input [0, 1, 2, 3] 1) ! ixFirst) = 4 \<and>
     (\<exists>j<count_overlap_faces example_overlap ixFirst (state_ixOverlap st) 0.
        \<exists>k<nat (int (length (faces example_overlap ! (state_ixOverlap st + j))) - 2).
        \<exists>l<TriQuadraturePoints (example_ext (- 1 / 10 ^ 15, 1 / 2)).
        (case se4_inverse_map (example_ext (- 1 / 10 ^ 15, 1 / 2)) (example_input [0, 1, 2, 3] 1)
                example_overlap ixFirst (state_ixOverlap st) j k l of
           (dAlpha, dBeta) \<Rightarrow> dAlpha < 0 \<or> dAlpha > 1 \<or> dBeta < 0 \<or> dBeta > 1))"
proof (rule LinearRemapSE4_InverseMapOutOfRange [THEN conjunct1, THEN iffD1])
  show "\<exists>dAlpha dBeta.
       LinearRemapSE4 (example_ext (- 1 / 10 ^ 15, 1 / 2)) (example_input [0, 1, 2, 3] 1)
         example_output example_overlap [[[1]]] [[[1]]] False (\<lambda>_. 0)
       = Inl (InverseMapOutOfRange dAlpha dBeta)"
    using run_out_of_range by blast
qed
section \<open>\<open>LinearRemapSE4\<close>: partial elements\<close>











section \<open>\<open>LinearRemapSE4\<close>: the quadrature\<close>














end
